theory Spec2Isabelle
  imports Main "HOL-Library.Word"
begin

unbundle bit_operations_syntax

section \<open>The wire framing layer of gringo's p2p package\<close>

text \<open>
  The development embeds \<^verbatim>\<open>src/p2p/messages.go\<close> and \<^verbatim>\<open>src/p2p/protocol.go\<close>:
  the header codec, the five message codecs (Ping, Pong, GetPeerAddrs, PeerError,
  PeerAddrs) and the framed transport functions \<^verbatim>\<open>WriteMessage\<close> and
  \<^verbatim>\<open>ReadMessage\<close>. Go's in-place mutation through pointer receivers is explicit
  state passing: every decoder takes the value it fills and the reader it reads from and
  returns both, updated, together with the error (\<open>None\<close> is Go's \<^verbatim>\<open>nil\<close>).
  Calls of the logger are left out, except \<^verbatim>\<open>logrus.Fatal\<close>, which ends the process.
\<close>

subsection \<open>Bytes, errors and the constants of the package\<close>

type_synonym byte = "8 word"

datatype error =
    EOF                          \<comment> \<open>\<^verbatim>\<open>io.EOF\<close>\<close>
  | ErrUnexpectedEOF             \<comment> \<open>\<^verbatim>\<open>io.ErrUnexpectedEOF\<close>\<close>
  | ErrShortWrite                \<comment> \<open>\<^verbatim>\<open>io.ErrShortWrite\<close>\<close>
  | ErrWriterFailed              \<comment> \<open>the error of the underlying writer\<close>
  | ErrInvalidMagic              \<comment> \<open>"invalid magic code"\<close>
  | ErrInvalidMessageLen         \<comment> \<open>"invalid messageLen len value"\<close>
  | ErrInvalidPeersCount         \<comment> \<open>"invalid peersCount value"\<close>
  | ErrUnexpectedMessageType     \<comment> \<open>"receive unexpected message type"\<close>
  | ErrTooBigMessage             \<comment> \<open>"too big message size"\<close>
  | PanicLenOutOfRange           \<comment> \<open>run-time panic of \<^verbatim>\<open>make([]byte, n)\<close>, \<open>n\<close> above the largest \<^verbatim>\<open>int\<close>\<close>
  | Fatal                        \<comment> \<open>\<^verbatim>\<open>logrus.Fatal\<close>: the process exits\<close>

text \<open>
  The constants \<^verbatim>\<open>consensus.MagicCode\<close>, \<^verbatim>\<open>consensus.HeaderLen\<close>,
  \<^verbatim>\<open>consensus.MaxMsgLen\<close>, \<^verbatim>\<open>maxStringLength\<close>, \<^verbatim>\<open>maxPeerAddresses\<close> and the
  message type tags \<^verbatim>\<open>msgType...\<close> are used by the two files but declared elsewhere.
  They are parameters of the model, collected in one record. Their types are the ones
  the uses force: \<^verbatim>\<open>HeaderLen\<close> is added to a \<^verbatim>\<open>uint64\<close>, \<^verbatim>\<open>MaxMsgLen\<close> and
  \<^verbatim>\<open>maxStringLength\<close> are compared with a \<^verbatim>\<open>uint64\<close>, \<^verbatim>\<open>maxPeerAddresses\<close> with a
  \<^verbatim>\<open>uint32\<close>, the tags are returned as \<^verbatim>\<open>uint8\<close>, the magic is a \<^verbatim>\<open>[2]byte\<close>.
\<close>

record config =
  MagicCode :: "byte \<times> byte"
  HeaderLen :: "64 word"
  MaxMsgLen :: "64 word"
  maxStringLength :: "64 word"
  maxPeerAddresses :: "32 word"
  msgTypePing :: "8 word"
  msgTypePong :: "8 word"
  msgTypeGetPeerAddrs :: "8 word"
  msgTypePeerAddrs :: "8 word"
  msgTypeError :: "8 word"

subsection \<open>\<^verbatim>\<open>encoding/binary\<close>, big endian\<close>

text \<open>\<^verbatim>\<open>binary.BigEndian.PutUintN\<close>: the most significant byte first.\<close>

definition PutUint16 :: "16 word \<Rightarrow> byte list" where
  "PutUint16 v = [ucast (drop_bit 8 v), ucast v]"

definition PutUint32 :: "32 word \<Rightarrow> byte list" where
  "PutUint32 v = [ucast (drop_bit 24 v), ucast (drop_bit 16 v), ucast (drop_bit 8 v), ucast v]"

definition PutUint64 :: "64 word \<Rightarrow> byte list" where
  "PutUint64 v = [ucast (drop_bit 56 v), ucast (drop_bit 48 v), ucast (drop_bit 40 v),
     ucast (drop_bit 32 v), ucast (drop_bit 24 v), ucast (drop_bit 16 v),
     ucast (drop_bit 8 v), ucast v]"

text \<open>
  \<^verbatim>\<open>binary.BigEndian.UintN\<close>. \<^verbatim>\<open>binary.Read\<close> calls them on a slice of exactly the
  width read; the last equation (a shorter slice, where Go panics) is never reached.
\<close>

fun Uint8 :: "byte list \<Rightarrow> 8 word" where
  "Uint8 (b0 # _) = b0"
| "Uint8 _ = 0"

fun Uint16 :: "byte list \<Rightarrow> 16 word" where
  "Uint16 (b0 # b1 # _) = ucast b1 OR push_bit 8 (ucast b0)"
| "Uint16 _ = 0"

fun Uint32 :: "byte list \<Rightarrow> 32 word" where
  "Uint32 (b0 # b1 # b2 # b3 # _) =
     ucast b3 OR push_bit 8 (ucast b2) OR push_bit 16 (ucast b1) OR push_bit 24 (ucast b0)"
| "Uint32 _ = 0"

fun Uint64 :: "byte list \<Rightarrow> 64 word" where
  "Uint64 (b0 # b1 # b2 # b3 # b4 # b5 # b6 # b7 # _) =
     ucast b7 OR push_bit 8 (ucast b6) OR push_bit 16 (ucast b5) OR push_bit 24 (ucast b4) OR
     push_bit 32 (ucast b3) OR push_bit 40 (ucast b2) OR push_bit 48 (ucast b1) OR
     push_bit 56 (ucast b0)"
| "Uint64 _ = 0"

text \<open>A Go \<^verbatim>\<open>string\<close> is a sequence of bytes; \<^verbatim>\<open>string(buff)\<close> and back.\<close>

definition string_of_bytes :: "byte list \<Rightarrow> string" where
  "string_of_bytes bs = map (\<lambda>b. char_of (unat b)) bs"

definition bytes_of_string :: "string \<Rightarrow> byte list" where
  "bytes_of_string s = map (\<lambda>c. of_nat (of_char c)) s"

subsection \<open>Readers: \<^verbatim>\<open>io.Reader\<close>, \<^verbatim>\<open>io.LimitReader\<close>, \<^verbatim>\<open>io.ReadFull\<close>\<close>

text \<open>
  A stream is the list of the bytes it will still deliver, followed by the end of the
  stream. A reader is either such a stream or an \<^verbatim>\<open>io.LimitedReader\<close> on one, with
  its field \<^verbatim>\<open>N\<close>, the number of bytes it may still hand out (an \<^verbatim>\<open>int64\<close>): its
  \<^verbatim>\<open>Read\<close> reports \<^verbatim>\<open>io.EOF\<close> when \<^verbatim>\<open>N <= 0\<close>, asks the underlying reader for
  at most \<^verbatim>\<open>N\<close> bytes otherwise, and lowers \<^verbatim>\<open>N\<close> by what it got.
\<close>

datatype reader = Stream "byte list" | LimitedReader "byte list" int

definition LimitReader :: "byte list \<Rightarrow> int \<Rightarrow> reader" where
  "LimitReader r n = LimitedReader r n"

text \<open>The bytes of the underlying stream that the reader has not consumed.\<close>

fun unread :: "reader \<Rightarrow> byte list" where
  "unread (Stream bs) = bs"
| "unread (LimitedReader bs n) = bs"

text \<open>How many bytes the reader can deliver before it reports \<^verbatim>\<open>io.EOF\<close>.\<close>

fun avail :: "reader \<Rightarrow> nat" where
  "avail (Stream bs) = length bs"
| "avail (LimitedReader bs n) = min (length bs) (nat n)"

fun advance :: "reader \<Rightarrow> nat \<Rightarrow> reader" where
  "advance (Stream bs) k = Stream (drop k bs)"
| "advance (LimitedReader bs n) k = LimitedReader (drop k bs) (n - int k)"

text \<open>
  \<^verbatim>\<open>io.ReadFull(r, buf)\<close> with \<open>k = len(buf)\<close>: the bytes copied into \<^verbatim>\<open>buf\<close>, the
  error, and the reader afterwards. It reads until \<open>k\<close> bytes are there or the reader
  fails: nothing is read for \<open>k = 0\<close>; a reader that ends first has given all it had, and
  the error is \<^verbatim>\<open>io.EOF\<close> when that was nothing, \<^verbatim>\<open>io.ErrUnexpectedEOF\<close> otherwise.
\<close>

definition ReadFull :: "reader \<Rightarrow> nat \<Rightarrow> (byte list \<times> error option) \<times> reader" where
  "ReadFull r k =
     (if k = 0 then (([], None), r)
      else if k \<le> avail r then ((take k (unread r), None), advance r k)
      else if avail r = 0 then (([], Some EOF), r)
      else ((take (avail r) (unread r), Some ErrUnexpectedEOF), advance r (avail r)))"

text \<open>
  \<^verbatim>\<open>binary.Read(r, binary.BigEndian, &x)\<close> for a fixed-width integer \<open>x\<close>: it reads the
  width with \<^verbatim>\<open>io.ReadFull\<close> into a buffer of its own, returns the error of that, and
  otherwise stores the decoded value.
\<close>

definition binary_Read :: "nat \<Rightarrow> (byte list \<Rightarrow> 'a) \<Rightarrow> reader \<Rightarrow> (error + 'a) \<times> reader" where
  "binary_Read width decode r =
     (case ReadFull r width of
        ((bs, Some e), r') \<Rightarrow> (Inl e, r')
      | ((bs, None), r') \<Rightarrow> (Inr (decode bs), r'))"

definition binary_Read_uint8 :: "reader \<Rightarrow> (error + 8 word) \<times> reader" where
  "binary_Read_uint8 = binary_Read 1 Uint8"

definition binary_Read_uint16 :: "reader \<Rightarrow> (error + 16 word) \<times> reader" where
  "binary_Read_uint16 = binary_Read 2 Uint16"

definition binary_Read_uint32 :: "reader \<Rightarrow> (error + 32 word) \<times> reader" where
  "binary_Read_uint32 = binary_Read 4 Uint32"

definition binary_Read_uint64 :: "reader \<Rightarrow> (error + 64 word) \<times> reader" where
  "binary_Read_uint64 = binary_Read 8 Uint64"

subsection \<open>The header\<close>

record Header =
  magic :: "byte \<times> byte"
  Type :: "8 word"
  Len :: "64 word"

text \<open>Go's zero value, \<^verbatim>\<open>var header Header\<close>.\<close>

definition zero_Header :: Header where
  "zero_Header = \<lparr>magic = (0, 0), Type = 0, Len = 0\<rparr>"

definition ValidateMagic :: "Header \<Rightarrow> bool" where
  "ValidateMagic h \<longleftrightarrow> fst (magic h) = 0x1e \<and> snd (magic h) = 0xc5"

text \<open>
  \<^verbatim>\<open>io.ReadFull(r, h.magic[:])\<close> reads into the field itself, so the bytes that
  arrived are in \<^verbatim>\<open>h.magic\<close> also when the read fails.
\<close>

fun copy_magic :: "byte \<times> byte \<Rightarrow> byte list \<Rightarrow> byte \<times> byte" where
  "copy_magic (m0, m1) [] = (m0, m1)"
| "copy_magic (m0, m1) [b0] = (b0, m1)"
| "copy_magic (m0, m1) (b0 # b1 # _) = (b0, b1)"

definition Header_Read :: "Header \<Rightarrow> reader \<Rightarrow> error option \<times> Header \<times> reader" where
  "Header_Read h r =
     (case ReadFull r 2 of
        ((bs, Some e), r1) \<Rightarrow> (Some e, h\<lparr>magic := copy_magic (magic h) bs\<rparr>, r1)
      | ((bs, None), r1) \<Rightarrow>
          (let h1 = h\<lparr>magic := copy_magic (magic h) bs\<rparr> in
           if \<not> ValidateMagic h1 then (Some ErrInvalidMagic, h1, r1)
           else
             (case binary_Read_uint8 r1 of
                (Inl e, r2) \<Rightarrow> (Some e, h1, r2)
              | (Inr t, r2) \<Rightarrow>
                  (case binary_Read_uint64 r2 of
                     (Inl e, r3) \<Rightarrow> (Some e, h1\<lparr>Type := t\<rparr>, r3)
                   | (Inr l, r3) \<Rightarrow> (None, h1\<lparr>Type := t, Len := l\<rparr>, r3)))))"

subsection \<open>The messages\<close>

text \<open>
  \<^verbatim>\<open>consensus.Difficulty\<close> and \<^verbatim>\<open>capabilities\<close> are declared elsewhere; the
  conversions \<^verbatim>\<open>(*uint64)(&p.TotalDifficulty)\<close> and \<^verbatim>\<open>(*uint32)(&p.Capabilities)\<close>
  fix their underlying types.
\<close>

record Ping =
  TotalDifficulty :: "64 word"
  Height :: "64 word"

text \<open>\<^verbatim>\<open>type Pong struct { Ping }\<close>: the embedded field has the name of its type.\<close>

record Pong =
  Ping :: Ping

record GetPeerAddrs =
  Capabilities :: "32 word"

record PeerError =
  Code :: "32 word"
  Message :: string

text \<open>
  \<^verbatim>\<open>net.TCPAddr\<close>: \<^verbatim>\<open>IP\<close> is a byte slice, \<^verbatim>\<open>Port\<close> an \<^verbatim>\<open>int\<close>, \<^verbatim>\<open>Zone\<close> a string.
  The entries of \<^verbatim>\<open>peers\<close> are pointers in Go; here they are the values pointed to.
\<close>

record TCPAddr =
  IP :: "byte list"
  Port :: int
  Zone :: string

record PeerAddrs =
  peers :: "TCPAddr list"

definition IPv4len :: nat where "IPv4len = 4"
definition IPv6len :: nat where "IPv6len = 16"

text \<open>
  The \<^verbatim>\<open>Bytes\<close> methods write into a \<^verbatim>\<open>bytes.Buffer\<close>, whose writes do not fail:
  they are functions to the bytes written, and the only \<^verbatim>\<open>logrus.Fatal\<close> that can be
  reached is the one for an address that is neither four nor sixteen bytes long.
\<close>

subsubsection \<open>Ping and Pong\<close>

definition Ping_Bytes :: "Ping \<Rightarrow> byte list" where
  "Ping_Bytes p = PutUint64 (TotalDifficulty p) @ PutUint64 (Height p)"

definition Ping_Read :: "Ping \<Rightarrow> reader \<Rightarrow> error option \<times> Ping \<times> reader" where
  "Ping_Read p r =
     (case binary_Read_uint64 r of
        (Inl e, r1) \<Rightarrow> (Some e, p, r1)
      | (Inr d, r1) \<Rightarrow>
          (case binary_Read_uint64 r1 of
             (Inl e, r2) \<Rightarrow> (Some e, p\<lparr>TotalDifficulty := d\<rparr>, r2)
           | (Inr h, r2) \<Rightarrow> (None, p\<lparr>TotalDifficulty := d, Height := h\<rparr>, r2)))"

text \<open>\<^verbatim>\<open>Pong\<close> has \<^verbatim>\<open>Bytes\<close> and \<^verbatim>\<open>Read\<close> from the embedded \<^verbatim>\<open>Ping\<close>.\<close>

definition Pong_Bytes :: "Pong \<Rightarrow> byte list" where
  "Pong_Bytes p = Ping_Bytes (Ping p)"

definition Pong_Read :: "Pong \<Rightarrow> reader \<Rightarrow> error option \<times> Pong \<times> reader" where
  "Pong_Read p r = (case Ping_Read (Ping p) r of (e, q, r') \<Rightarrow> (e, p\<lparr>Ping := q\<rparr>, r'))"

subsubsection \<open>GetPeerAddrs\<close>

definition GetPeerAddrs_Bytes :: "GetPeerAddrs \<Rightarrow> byte list" where
  "GetPeerAddrs_Bytes p = PutUint32 (Capabilities p)"

definition GetPeerAddrs_Read ::
    "GetPeerAddrs \<Rightarrow> reader \<Rightarrow> error option \<times> GetPeerAddrs \<times> reader" where
  "GetPeerAddrs_Read p r =
     (case binary_Read_uint32 r of
        (Inl e, r1) \<Rightarrow> (Some e, p, r1)
      | (Inr c, r1) \<Rightarrow> (None, p\<lparr>Capabilities := c\<rparr>, r1))"

subsubsection \<open>PeerError\<close>

definition PeerError_Bytes :: "PeerError \<Rightarrow> byte list" where
  "PeerError_Bytes p =
     PutUint32 (Code p) @ PutUint64 (of_nat (length (Message p))) @ bytes_of_string (Message p)"

definition PeerError_Read ::
    "config \<Rightarrow> PeerError \<Rightarrow> reader \<Rightarrow> error option \<times> PeerError \<times> reader" where
  "PeerError_Read cfg p r =
     (case binary_Read_uint32 r of
        (Inl e, r1) \<Rightarrow> (Some e, p, r1)
      | (Inr c, r1) \<Rightarrow>
          (let p1 = p\<lparr>Code := c\<rparr> in
           case binary_Read_uint64 r1 of
             (Inl e, r2) \<Rightarrow> (Some e, p1, r2)
           | (Inr messageLen, r2) \<Rightarrow>
               if messageLen > maxStringLength cfg then (Some ErrInvalidMessageLen, p1, r2)
               else if messageLen > 0x7FFFFFFFFFFFFFFF then (Some PanicLenOutOfRange, p1, r2)
               else
                 (case ReadFull r2 (unat messageLen) of
                    ((buff, Some e), r3) \<Rightarrow> (Some e, p1, r3)
                  | ((buff, None), r3) \<Rightarrow> (None, p1\<lparr>Message := string_of_bytes buff\<rparr>, r3))))"

subsubsection \<open>PeerAddrs\<close>

text \<open>
  The loop of \<^verbatim>\<open>PeerAddrs.Bytes\<close> over \<^verbatim>\<open>p.peers\<close>, with the buffer written so far.
  \<^verbatim>\<open>uint16(peerAddr.Port)\<close> keeps the low 16 bits of the port.
\<close>

fun PeerAddrs_Bytes_loop :: "TCPAddr list \<Rightarrow> byte list \<Rightarrow> error + byte list" where
  "PeerAddrs_Bytes_loop [] buff = Inr buff"
| "PeerAddrs_Bytes_loop (peerAddr # rest) buff =
     (if length (IP peerAddr) = IPv4len then
        PeerAddrs_Bytes_loop rest
          (buff @ [0] @ IP peerAddr @ PutUint16 (word_of_int (Port peerAddr)))
      else if length (IP peerAddr) = IPv6len then
        PeerAddrs_Bytes_loop rest
          (buff @ [1] @ IP peerAddr @ PutUint16 (word_of_int (Port peerAddr)))
      else Inl Fatal)"

definition PeerAddrs_Bytes :: "PeerAddrs \<Rightarrow> error + byte list" where
  "PeerAddrs_Bytes p = PeerAddrs_Bytes_loop (peers p) (PutUint32 (of_nat (length (peers p))))"

text \<open>
  The loop of \<^verbatim>\<open>PeerAddrs.Read\<close>; the first argument is the number of entries still
  to read, \<^verbatim>\<open>peersCount - i\<close>. \<^verbatim>\<open>ipFlag\<close> is an \<^verbatim>\<open>int8\<close>, zero exactly when the
  byte read is zero. The address built has no zone.
\<close>

fun PeerAddrs_Read_loop ::
    "nat \<Rightarrow> PeerAddrs \<Rightarrow> reader \<Rightarrow> error option \<times> PeerAddrs \<times> reader" where
  "PeerAddrs_Read_loop 0 p r = (None, p, r)"
| "PeerAddrs_Read_loop (Suc k) p r =
     (case binary_Read_uint8 r of
        (Inl e, r1) \<Rightarrow> (Some e, p, r1)
      | (Inr ipFlag, r1) \<Rightarrow>
          (case ReadFull r1 (if ipFlag = 0 then IPv4len else IPv6len) of
             ((ipAddr, Some e), r2) \<Rightarrow> (Some e, p, r2)
           | ((ipAddr, None), r2) \<Rightarrow>
               (case binary_Read_uint16 r2 of
                  (Inl e, r3) \<Rightarrow> (Some e, p, r3)
                | (Inr ipPort, r3) \<Rightarrow>
                    PeerAddrs_Read_loop k
                      (p\<lparr>peers := peers p @ [\<lparr>IP = ipAddr, Port = uint ipPort, Zone = ''''\<rparr>]\<rparr>)
                      r3)))"

definition PeerAddrs_Read ::
    "config \<Rightarrow> PeerAddrs \<Rightarrow> reader \<Rightarrow> error option \<times> PeerAddrs \<times> reader" where
  "PeerAddrs_Read cfg p r =
     (case binary_Read_uint32 r of
        (Inl e, r1) \<Rightarrow> (Some e, p, r1)
      | (Inr peersCount, r1) \<Rightarrow>
          if peersCount > maxPeerAddresses cfg then (Some ErrInvalidPeersCount, p, r1)
          else PeerAddrs_Read_loop (unat peersCount) p r1)"

subsubsection \<open>The interface \<^verbatim>\<open>Message\<close>\<close>

text \<open>One constructor for each type of the two files that implements the interface.\<close>

datatype Message =
    PingMsg Ping
  | PongMsg Pong
  | GetPeerAddrsMsg GetPeerAddrs
  | PeerErrorMsg PeerError
  | PeerAddrsMsg PeerAddrs

fun msg_Type :: "config \<Rightarrow> Message \<Rightarrow> 8 word" where
  "msg_Type cfg (PingMsg p) = msgTypePing cfg"
| "msg_Type cfg (PongMsg p) = msgTypePong cfg"
| "msg_Type cfg (GetPeerAddrsMsg p) = msgTypeGetPeerAddrs cfg"
| "msg_Type cfg (PeerErrorMsg p) = msgTypeError cfg"
| "msg_Type cfg (PeerAddrsMsg p) = msgTypePeerAddrs cfg"

fun msg_Bytes :: "Message \<Rightarrow> error + byte list" where
  "msg_Bytes (PingMsg p) = Inr (Ping_Bytes p)"
| "msg_Bytes (PongMsg p) = Inr (Pong_Bytes p)"
| "msg_Bytes (GetPeerAddrsMsg p) = Inr (GetPeerAddrs_Bytes p)"
| "msg_Bytes (PeerErrorMsg p) = Inr (PeerError_Bytes p)"
| "msg_Bytes (PeerAddrsMsg p) = PeerAddrs_Bytes p"

fun msg_Read :: "config \<Rightarrow> Message \<Rightarrow> reader \<Rightarrow> error option \<times> Message \<times> reader" where
  "msg_Read cfg (PingMsg p) r = (case Ping_Read p r of (e, q, r') \<Rightarrow> (e, PingMsg q, r'))"
| "msg_Read cfg (PongMsg p) r = (case Pong_Read p r of (e, q, r') \<Rightarrow> (e, PongMsg q, r'))"
| "msg_Read cfg (GetPeerAddrsMsg p) r =
     (case GetPeerAddrs_Read p r of (e, q, r') \<Rightarrow> (e, GetPeerAddrsMsg q, r'))"
| "msg_Read cfg (PeerErrorMsg p) r =
     (case PeerError_Read cfg p r of (e, q, r') \<Rightarrow> (e, PeerErrorMsg q, r'))"
| "msg_Read cfg (PeerAddrsMsg p) r =
     (case PeerAddrs_Read cfg p r of (e, q, r') \<Rightarrow> (e, PeerAddrsMsg q, r'))"

subsection \<open>\<^verbatim>\<open>ReadMessage\<close>\<close>

text \<open>
  The result is the count returned, the error, the message value after the call and
  the stream after the call. \<^verbatim>\<open>int64(x)\<close> of a \<^verbatim>\<open>uint64\<close> is \<open>sint x\<close>.
\<close>

definition ReadMessage ::
    "config \<Rightarrow> byte list \<Rightarrow> Message \<Rightarrow> (64 word \<times> error option) \<times> Message \<times> byte list" where
  "ReadMessage cfg r msg =
     (let rh = LimitReader r (sint (HeaderLen cfg)) in
      case Header_Read zero_Header rh of
        (Some e, header, rh') \<Rightarrow> ((0, Some e), msg, unread rh')
      | (None, header, rh') \<Rightarrow>
          (let r1 = unread rh' in
           if Type header \<noteq> msg_Type cfg msg
             then ((HeaderLen cfg, Some ErrUnexpectedMessageType), msg, r1)
           else if Len header > MaxMsgLen cfg
             then ((HeaderLen cfg, Some ErrTooBigMessage), msg, r1)
           else
             (let rb = LimitReader r1 (sint (Len header)) in
              case msg_Read cfg msg rb of
                (e, msg', rb') \<Rightarrow> ((HeaderLen cfg + Len header, e), msg', unread rb'))))"

subsection \<open>Writers: \<^verbatim>\<open>io.Writer\<close> and \<^verbatim>\<open>bufio.Writer\<close>\<close>

text \<open>
  The underlying writer (the connection) keeps what it has accepted and accepts \<open>room\<close>
  more bytes; a \<^verbatim>\<open>Write\<close> beyond that accepts what fits and fails.
\<close>

record Writer =
  written :: "byte list"
  room :: nat

definition Writer_Write :: "Writer \<Rightarrow> byte list \<Rightarrow> (nat \<times> error option) \<times> Writer" where
  "Writer_Write w p =
     (if length p \<le> room w
        then ((length p, None), w\<lparr>written := written w @ p, room := room w - length p\<rparr>)
      else ((room w, Some ErrWriterFailed),
            w\<lparr>written := written w @ take (room w) p, room := 0\<rparr>))"

text \<open>
  \<^verbatim>\<open>bufio.Writer\<close>: \<open>buf\<close> is the buffered part \<^verbatim>\<open>b.buf[0:b.n]\<close> of a buffer of
  \<^verbatim>\<open>defaultBufSize\<close> bytes, \<open>err\<close> the sticky error, \<open>wr\<close> the underlying writer.
\<close>

record bufio_Writer =
  buf :: "byte list"
  err :: "error option"
  wr :: Writer

definition defaultBufSize :: nat where
  "defaultBufSize = 4096"

definition NewWriter :: "Writer \<Rightarrow> bufio_Writer" where
  "NewWriter w = \<lparr>buf = [], err = None, wr = w\<rparr>"

definition Available :: "bufio_Writer \<Rightarrow> nat" where
  "Available b = defaultBufSize - length (buf b)"

definition Buffered :: "bufio_Writer \<Rightarrow> nat" where
  "Buffered b = length (buf b)"

definition bufio_Flush :: "bufio_Writer \<Rightarrow> error option \<times> bufio_Writer" where
  "bufio_Flush b =
     (if err b \<noteq> None then (err b, b)
      else if buf b = [] then (None, b)
      else
        (case Writer_Write (wr b) (buf b) of
           ((n, e), w') \<Rightarrow>
             (let e' = (if n < length (buf b) \<and> e = None then Some ErrShortWrite else e) in
              if e' \<noteq> None then (e', b\<lparr>buf := drop n (buf b), err := e', wr := w'\<rparr>)
              else (None, b\<lparr>buf := [], wr := w'\<rparr>))))"

text \<open>
  The loop of \<^verbatim>\<open>bufio.Writer.Write\<close>, which runs while \<^verbatim>\<open>p\<close> does not fit into the
  buffer: an empty buffer is bypassed, a non-empty one is filled and flushed. The state
  is the writer, the rest of \<^verbatim>\<open>p\<close> and the count \<^verbatim>\<open>nn\<close>.
\<close>

function bufio_Write_loop ::
    "bufio_Writer \<Rightarrow> byte list \<Rightarrow> nat \<Rightarrow> bufio_Writer \<times> byte list \<times> nat" where
  "bufio_Write_loop b p nn =
     (if length p > Available b \<and> err b = None then
        (if Buffered b = 0 then
           (let res = Writer_Write (wr b) p; n = fst (fst res)
            in bufio_Write_loop (b\<lparr>err := snd (fst res), wr := snd res\<rparr>) (drop n p) (nn + n))
         else
           (let n = min (Available b) (length p);
                b' = snd (bufio_Flush (b\<lparr>buf := buf b @ take n p\<rparr>))
            in bufio_Write_loop b' (drop n p) (nn + n)))
      else (b, p, nn))"
  by pat_completeness auto

termination bufio_Write_loop
proof (relation "measure (\<lambda>(b, p, nn).
    if length p > Available b \<and> err b = None then (if buf b = [] then 1 else 2) else 0)")
  show "wf (measure (\<lambda>(b, p, nn).
    if length p > Available b \<and> err b = None then (if buf b = [] then 1 else 2) else 0))"
    by simp
next
  fix b :: bufio_Writer and p :: "byte list" and nn :: nat and x xa
  assume c: "Available b < length p \<and> err b = None" and e: "Buffered b = 0"
    and x: "x = Writer_Write (wr b) p" and xa: "xa = fst (fst x)"
  show "((b\<lparr>err := snd (fst x), wr := snd x\<rparr>, drop xa p, nn + xa), b, p, nn)
       \<in> measure (\<lambda>(b, p, nn).
    if length p > Available b \<and> err b = None then (if buf b = [] then 1 else 2) else 0)"
  proof (cases "snd (fst x)")
    case None
    then have "xa = length p"
      using x xa by (auto simp add: Writer_Write_def split: if_splits)
    then show ?thesis
      using c e by (simp add: Buffered_def)
  next
    case (Some a)
    then show ?thesis
      using c e by (simp add: Buffered_def)
  qed
next
  fix b :: bufio_Writer and p :: "byte list" and nn :: nat and x xa
  assume c: "Available b < length p \<and> err b = None" and e: "Buffered b \<noteq> 0"
    and x: "x = min (Available b) (length p)"
    and xa: "xa = snd (bufio_Flush (b\<lparr>buf := buf b @ take x p\<rparr>))"
  have "err xa \<noteq> None \<or> buf xa = []"
    using e xa by (auto simp add: bufio_Flush_def Buffered_def Let_def split: prod.splits)
  then show "((xa, drop x p, nn + x), b, p, nn)
       \<in> measure (\<lambda>(b, p, nn).
    if length p > Available b \<and> err b = None then (if buf b = [] then 1 else 2) else 0)"
    using c e by (auto simp add: Buffered_def)
qed

declare bufio_Write_loop.simps [simp del]

text \<open>
  \<^verbatim>\<open>bufio.Writer.Write\<close>: after the loop, the sticky error is returned if there is
  one, and otherwise the rest of \<^verbatim>\<open>p\<close> is copied into the buffer.
\<close>

definition bufio_Write :: "bufio_Writer \<Rightarrow> byte list \<Rightarrow> (nat \<times> error option) \<times> bufio_Writer" where
  "bufio_Write b p =
     (case bufio_Write_loop b p 0 of
        (b', p', nn) \<Rightarrow>
          if err b' \<noteq> None then ((nn, err b'), b')
          else ((nn + length p', None), b'\<lparr>buf := buf b' @ p'\<rparr>))"

text \<open>
  \<^verbatim>\<open>Header.Write\<close> on the buffered writer. \<^verbatim>\<open>binary.Write\<close> encodes the value and
  hands the bytes to one \<^verbatim>\<open>Write\<close>, whose error it returns.
\<close>

definition Header_Write :: "Header \<Rightarrow> bufio_Writer \<Rightarrow> error option \<times> bufio_Writer" where
  "Header_Write h w0 =
     (case bufio_Write w0 [fst (magic h), snd (magic h)] of
        ((n, Some e), w1) \<Rightarrow> (Some e, w1)
      | ((n, None), w1) \<Rightarrow>
          (case bufio_Write w1 [Type h] of
             ((n, Some e), w2) \<Rightarrow> (Some e, w2)
           | ((n, None), w2) \<Rightarrow>
               (case bufio_Write w2 (PutUint64 (Len h)) of
                  ((n, e), w3) \<Rightarrow> (e, w3))))"

subsection \<open>\<^verbatim>\<open>WriteMessage\<close>\<close>

text \<open>
  \<open>Inl Fatal\<close> is the process ended by \<^verbatim>\<open>logrus.Fatal\<close> inside \<^verbatim>\<open>msg.Bytes()\<close>.
  Otherwise the result is the count returned, the error, and the underlying writer
  after the call.
\<close>

definition WriteMessage ::
    "config \<Rightarrow> Writer \<Rightarrow> Message \<Rightarrow> error + ((64 word \<times> error option) \<times> Writer)" where
  "WriteMessage cfg w msg =
     (case msg_Bytes msg of
        Inl e \<Rightarrow> Inl e
      | Inr data \<Rightarrow>
          (let header = \<lparr>magic = MagicCode cfg, Type = msg_Type cfg msg,
                         Len = of_nat (length data)\<rparr>;
               w0 = NewWriter w
           in case Header_Write header w0 of
                (Some e, w1) \<Rightarrow> Inr ((0, Some e), wr w1)
              | (None, w1) \<Rightarrow>
                  (case bufio_Write w1 data of
                     ((n, Some e), w2) \<Rightarrow> Inr ((of_nat n + HeaderLen cfg, Some e), wr w2)
                   | ((n, None), w2) \<Rightarrow>
                       (case bufio_Flush w2 of
                          (e, w3) \<Rightarrow> Inr ((of_nat n + HeaderLen cfg, e), wr w3)))))"

subsection \<open>Notions used in the statements\<close>

text \<open>
  A configuration for the concrete instances. The magic is the one \<^verbatim>\<open>ValidateMagic\<close>
  accepts, the header length is the width of the three header fields, the ping tag is
  the one of the specification's scenario; the other values are arbitrary.
\<close>

definition example_config :: config where
  "example_config = \<lparr>MagicCode = (0x1e, 0xc5), HeaderLen = 11, MaxMsgLen = 20000000,
     maxStringLength = 1024, maxPeerAddresses = 4096,
     msgTypePing = 0, msgTypePong = 1, msgTypeGetPeerAddrs = 2, msgTypePeerAddrs = 3,
     msgTypeError = 4\<rparr>"

text \<open>The bytes one entry of a \<^verbatim>\<open>PeerAddrs\<close> body takes: flag, address, port.\<close>

definition entry_length :: "TCPAddr \<Rightarrow> nat" where
  "entry_length a = 1 + length (IP a) + 2"

text \<open>
  The number of bytes a successful \<^verbatim>\<open>Read\<close> has taken from its reader, read off the
  value before and the value after the call: the fixed fields, the text of a
  \<^verbatim>\<open>PeerError\<close>, the entries that \<^verbatim>\<open>PeerAddrs.Read\<close> appended.
\<close>

fun peers_of :: "Message \<Rightarrow> TCPAddr list" where
  "peers_of (PeerAddrsMsg p) = peers p"
| "peers_of _ = []"

fun decoded_length :: "Message \<Rightarrow> Message \<Rightarrow> nat" where
  "decoded_length m0 (PingMsg p) = 8 + 8"
| "decoded_length m0 (PongMsg p) = 8 + 8"
| "decoded_length m0 (GetPeerAddrsMsg p) = 4"
| "decoded_length m0 (PeerErrorMsg p) = 4 + 8 + length (Message p)"
| "decoded_length m0 (PeerAddrsMsg p) =
     4 + sum_list (map entry_length (drop (length (peers_of m0)) (peers p)))"

text \<open>
  What a failed \<^verbatim>\<open>Read\<close> leaves as it was: the fields that come after the first field
  of the encoding, and the entries a \<^verbatim>\<open>PeerAddrs\<close> value held before the call.
\<close>

fun kept_on_failure :: "Message \<Rightarrow> Message \<Rightarrow> bool" where
  "kept_on_failure (PingMsg p) (PingMsg p') \<longleftrightarrow> Height p' = Height p"
| "kept_on_failure (PongMsg p) (PongMsg p') \<longleftrightarrow> Height (Ping p') = Height (Ping p)"
| "kept_on_failure (GetPeerAddrsMsg p) (GetPeerAddrsMsg p') \<longleftrightarrow> p' = p"
| "kept_on_failure (PeerErrorMsg p) (PeerErrorMsg p') \<longleftrightarrow> Message p' = Message p"
| "kept_on_failure (PeerAddrsMsg p) (PeerAddrsMsg p') \<longleftrightarrow>
     take (length (peers p)) (peers p') = peers p"
| "kept_on_failure _ _ \<longleftrightarrow> False"

text \<open>
  Streams for the concrete instances: a framed \<^verbatim>\<open>Ping{1000, 42}\<close>; the same body
  under a header that declares 17 bytes, followed by one more byte; the frame cut after
  the first field; a header that declares 20000001 bytes.
\<close>

definition ping_frame :: "byte list" where
  "ping_frame = [0x1e, 0xc5, 0, 0, 0, 0, 0, 0, 0, 0, 16,
                 0, 0, 0, 0, 0, 0, 3, 0xE8, 0, 0, 0, 0, 0, 0, 0, 0x2A]"

definition long_ping_frame :: "byte list" where
  "long_ping_frame = [0x1e, 0xc5, 0, 0, 0, 0, 0, 0, 0, 0, 17,
                      0, 0, 0, 0, 0, 0, 3, 0xE8, 0, 0, 0, 0, 0, 0, 0, 0x2A, 0xFF]"

definition short_ping_frame :: "byte list" where
  "short_ping_frame = [0x1e, 0xc5, 0, 0, 0, 0, 0, 0, 0, 0, 16,
                       0, 0, 0, 0, 0, 0, 3, 0xE8]"

definition oversized_frame :: "byte list" where
  "oversized_frame = [0x1e, 0xc5, 0, 0, 0, 0, 0, 1, 0x31, 0x2D, 0x01, 7, 7]"

text \<open>
  The bytes \<^verbatim>\<open>PeerAddrs.Bytes\<close> writes for one address of four or sixteen bytes.
\<close>

definition entry_bytes :: "TCPAddr \<Rightarrow> byte list" where
  "entry_bytes a =
     [if length (IP a) = IPv4len then 0 else 1] @ IP a @ PutUint16 (word_of_int (Port a))"

text \<open>Go's zero value of each message type, the receiver of a decode.\<close>

fun zero_value :: "Message \<Rightarrow> Message" where
  "zero_value (PingMsg p) = PingMsg \<lparr>TotalDifficulty = 0, Height = 0\<rparr>"
| "zero_value (PongMsg p) = PongMsg \<lparr>Ping = \<lparr>TotalDifficulty = 0, Height = 0\<rparr>\<rparr>"
| "zero_value (GetPeerAddrsMsg p) = GetPeerAddrsMsg \<lparr>Capabilities = 0\<rparr>"
| "zero_value (PeerErrorMsg p) = PeerErrorMsg \<lparr>Code = 0, Message = ''''\<rparr>"
| "zero_value (PeerAddrsMsg p) = PeerAddrsMsg \<lparr>peers = []\<rparr>"

text \<open>
  The valid field values of the round trip: the text within
  \<^verbatim>\<open>maxStringLength\<close>, the number of addresses within \<^verbatim>\<open>maxPeerAddresses\<close>, every
  address four or sixteen bytes long.
\<close>

fun valid_fields :: "config \<Rightarrow> Message \<Rightarrow> bool" where
  "valid_fields cfg (PeerErrorMsg p) \<longleftrightarrow> length (Message p) \<le> unat (maxStringLength cfg)"
| "valid_fields cfg (PeerAddrsMsg p) \<longleftrightarrow>
     length (peers p) \<le> unat (maxPeerAddresses cfg) \<and>
     list_all (\<lambda>a. length (IP a) = 4 \<or> length (IP a) = 16) (peers p)"
| "valid_fields cfg m \<longleftrightarrow> True"

text \<open>
  What the encoding can carry besides: of a \<^verbatim>\<open>net.TCPAddr\<close> the low 16 bits of the
  port and no zone. The bound on the text holds for every Go string (its length is an
  \<^verbatim>\<open>int\<close>); lists have no such bound.
\<close>

fun fits_encoding :: "Message \<Rightarrow> bool" where
  "fits_encoding (PeerErrorMsg p) \<longleftrightarrow> length (Message p) < 2 ^ 63"
| "fits_encoding (PeerAddrsMsg p) \<longleftrightarrow>
     list_all (\<lambda>a. 0 \<le> Port a \<and> Port a < 65536 \<and> Zone a = '''') (peers p)"
| "fits_encoding m \<longleftrightarrow> True"

text \<open>
  The bytes a reader can deliver before it reports the end: all of a stream, the first
  \<^verbatim>\<open>N\<close> bytes under a limited reader.
\<close>

definition readable :: "reader \<Rightarrow> byte list" where
  "readable r = take (avail r) (unread r)"

text \<open>
  The length of the encoding that starts at the front of the deliverable bytes, read
  off these bytes: the fixed fields, the text length a \<^verbatim>\<open>PeerError\<close> body declares,
  the entries a \<^verbatim>\<open>PeerAddrs\<close> body declares, each as long as its flag says. Where the
  bytes end inside a length prefix or before a flag, it is what is needed to read that.
\<close>

fun entries_length :: "nat \<Rightarrow> byte list \<Rightarrow> nat" where
  "entries_length 0 bs = 0"
| "entries_length (Suc c) [] = 1"
| "entries_length (Suc c) (ipFlag # rest) =
     (let n = (if ipFlag = 0 then IPv4len else IPv6len)
      in 1 + n + 2 + entries_length c (drop (n + 2) rest))"

fun encoded_length :: "Message \<Rightarrow> byte list \<Rightarrow> nat" where
  "encoded_length (PingMsg p) bs = 8 + 8"
| "encoded_length (PongMsg p) bs = 8 + 8"
| "encoded_length (GetPeerAddrsMsg p) bs = 4"
| "encoded_length (PeerErrorMsg p) bs =
     (if length bs < 4 + 8 then 4 + 8 else 4 + 8 + unat (Uint64 (take 8 (drop 4 bs))))"
| "encoded_length (PeerAddrsMsg p) bs =
     (if length bs < 4 then 4 else 4 + entries_length (unat (Uint32 (take 4 bs))) (drop 4 bs))"

text \<open>The declared text length and the declared count are within the maxima.\<close>

fun within_limits :: "config \<Rightarrow> Message \<Rightarrow> byte list \<Rightarrow> bool" where
  "within_limits cfg (PeerErrorMsg p) bs \<longleftrightarrow>
     Uint64 (take 8 (drop 4 bs)) \<le> maxStringLength cfg \<and>
     Uint64 (take 8 (drop 4 bs)) \<le> 0x7FFFFFFFFFFFFFFF"
| "within_limits cfg (PeerAddrsMsg p) bs \<longleftrightarrow> Uint32 (take 4 bs) \<le> maxPeerAddresses cfg"
| "within_limits cfg m bs \<longleftrightarrow> True"

text \<open>
  The entries, at most \<open>c\<close> of them, that are whole at the front of the deliverable
  bytes, and the message value in which exactly the fields that are whole in the
  deliverable bytes (and have passed the check of their length) are stored.
\<close>

fun whole_entries :: "nat \<Rightarrow> byte list \<Rightarrow> TCPAddr list" where
  "whole_entries 0 bs = []"
| "whole_entries (Suc c) [] = []"
| "whole_entries (Suc c) (ipFlag # rest) =
     (let n = (if ipFlag = 0 then IPv4len else IPv6len)
      in if length rest < n + 2 then []
         else \<lparr>IP = take n rest, Port = uint (Uint16 (take 2 (drop n rest))), Zone = ''''\<rparr>
              # whole_entries c (drop (n + 2) rest))"

fun stored_fields :: "config \<Rightarrow> Message \<Rightarrow> byte list \<Rightarrow> Message" where
  "stored_fields cfg (PingMsg p) bs =
     PingMsg (if length bs < 8 then p
              else if length bs < 16 then p\<lparr>TotalDifficulty := Uint64 (take 8 bs)\<rparr>
              else p\<lparr>TotalDifficulty := Uint64 (take 8 bs),
                     Height := Uint64 (take 8 (drop 8 bs))\<rparr>)"
| "stored_fields cfg (PongMsg p) bs =
     PongMsg (if length bs < 8 then p
              else if length bs < 16
                then p\<lparr>Ping := (Ping p)\<lparr>TotalDifficulty := Uint64 (take 8 bs)\<rparr>\<rparr>
              else p\<lparr>Ping := (Ping p)\<lparr>TotalDifficulty := Uint64 (take 8 bs),
                                      Height := Uint64 (take 8 (drop 8 bs))\<rparr>\<rparr>)"
| "stored_fields cfg (GetPeerAddrsMsg p) bs =
     GetPeerAddrsMsg (if length bs < 4 then p else p\<lparr>Capabilities := Uint32 (take 4 bs)\<rparr>)"
| "stored_fields cfg (PeerErrorMsg p) bs =
     PeerErrorMsg
       (if length bs < 4 then p
        else if length bs < 12 \<or> \<not> within_limits cfg (PeerErrorMsg p) bs
                \<or> length bs < 12 + unat (Uint64 (take 8 (drop 4 bs)))
          then p\<lparr>Code := Uint32 (take 4 bs)\<rparr>
        else p\<lparr>Code := Uint32 (take 4 bs),
               Message := string_of_bytes
                            (take (unat (Uint64 (take 8 (drop 4 bs)))) (drop 12 bs))\<rparr>)"
| "stored_fields cfg (PeerAddrsMsg p) bs =
     PeerAddrsMsg
       (if length bs < 4 \<or> \<not> within_limits cfg (PeerAddrsMsg p) bs then p
        else p\<lparr>peers := peers p @ whole_entries (unat (Uint32 (take 4 bs))) (drop 4 bs)\<rparr>)"

text \<open>The width of the first field of the encoding.\<close>

fun first_field_width :: "Message \<Rightarrow> nat" where
  "first_field_width (PingMsg p) = 8"
| "first_field_width (PongMsg p) = 8"
| "first_field_width m = 4"

text \<open>A \<^verbatim>\<open>PeerError\<close> body that declares ten bytes of text and holds two.\<close>

definition cut_error_body :: "byte list" where
  "cut_error_body = [0, 0, 0, 7, 0, 0, 0, 0, 0, 0, 0, 10, 65, 66]"

section \<open>Properties\<close>

subsection \<open>Readers\<close>

lemma advance_0 [simp]: "advance r 0 = r"
  by (cases r) simp_all

lemma avail_advance [simp]: "avail (advance r k) = avail r - k"
  by (cases r) auto

lemma unread_advance [simp]: "unread (advance r k) = drop k (unread r)"
  by (cases r) simp_all

lemma advance_advance [simp]: "advance (advance r a) b = advance r (a + b)"
  by (cases r) (simp_all add: add.commute)

lemma avail_le_unread: "avail r \<le> length (unread r)"
  by (cases r) simp_all

lemma ReadFull_eq:
  "ReadFull r k =
     ((take (min k (avail r)) (unread r),
       if k \<le> avail r then None else Some (if avail r = 0 then EOF else ErrUnexpectedEOF)),
      advance r (min k (avail r)))"
  by (simp add: ReadFull_def min_def)

lemma binary_Read_eq:
  "binary_Read w d r =
     (if w \<le> avail r then (Inr (d (take w (unread r))), advance r w)
      else (Inl (if avail r = 0 then EOF else ErrUnexpectedEOF), advance r (avail r)))"
  by (simp add: binary_Read_def ReadFull_eq min_def)

lemmas binary_Read_simps =
  binary_Read_uint8_def binary_Read_uint16_def binary_Read_uint32_def binary_Read_uint64_def
  binary_Read_eq

lemmas decode_defs =
  ReadMessage_def LimitReader_def Header_Read_def ReadFull_def zero_Header_def ValidateMagic_def
  binary_Read_uint8_def binary_Read_uint16_def binary_Read_uint32_def binary_Read_uint64_def
  binary_Read_def Ping_Read_def Pong_Read_def GetPeerAddrs_Read_def PeerError_Read_def
  PeerAddrs_Read_def example_config_def Let_def IPv4len_def IPv6len_def
  ping_frame_def long_ping_frame_def short_ping_frame_def oversized_frame_def

subsection \<open>Big-endian encoding and decoding\<close>

lemma split8: "(ucast (ucast v :: 8 word) :: 'a::len word) OR push_bit 8 (drop_bit 8 v) = v"
proof (rule bit_word_eqI)
  fix n assume "n < LENGTH('a)"
  then show "bit ((ucast (ucast v :: 8 word) :: 'a word) OR push_bit 8 (drop_bit 8 v)) n = bit v n"
    by (cases "n < 8") (auto simp add: bit_simps)
qed

lemma top8: "drop_bit 8 v = 0 \<Longrightarrow> (ucast (ucast v :: 8 word) :: 'a::len word) = v"
  using split8 [of v] by simp

lemma Uint16_PutUint16 [simp]: "Uint16 (PutUint16 v) = v"
proof -
  have "Uint16 (PutUint16 v) =
    ucast (ucast v :: 8 word) OR push_bit 8 (ucast (ucast (drop_bit 8 v) :: 8 word))"
    by (simp add: PutUint16_def)
  also have "\<dots> = v"
  proof -
    have "drop_bit 8 (drop_bit 8 v) = 0"
      by (simp add: drop_bit_drop_bit)
    then show ?thesis
      by (simp only: top8 split8)
  qed
  finally show ?thesis .
qed

lemma Uint32_PutUint32 [simp]: "Uint32 (PutUint32 v) = v"
proof -
  have "Uint32 (PutUint32 v) =
    ucast (ucast v :: 8 word) OR push_bit 8 (
    ucast (ucast (drop_bit 8 v) :: 8 word) OR push_bit 8 (
    ucast (ucast (drop_bit 8 (drop_bit 8 v)) :: 8 word) OR push_bit 8 (
    ucast (ucast (drop_bit 8 (drop_bit 8 (drop_bit 8 v))) :: 8 word))))"
    by (simp add: PutUint32_def push_bit_or or.assoc)
  also have "\<dots> = v"
  proof -
    have "drop_bit 8 (drop_bit 8 (drop_bit 8 (drop_bit 8 v))) = 0"
      by (simp add: drop_bit_drop_bit)
    then show ?thesis
      by (simp only: top8 split8)
  qed
  finally show ?thesis .
qed

lemma Uint64_PutUint64 [simp]: "Uint64 (PutUint64 v) = v"
proof -
  have "Uint64 (PutUint64 v) =
    ucast (ucast v :: 8 word) OR push_bit 8 (
    ucast (ucast (drop_bit 8 v) :: 8 word) OR push_bit 8 (
    ucast (ucast (drop_bit 8 (drop_bit 8 v)) :: 8 word) OR push_bit 8 (
    ucast (ucast (drop_bit 8 (drop_bit 8 (drop_bit 8 v))) :: 8 word) OR push_bit 8 (
    ucast (ucast (drop_bit 8 (drop_bit 8 (drop_bit 8 (drop_bit 8 v)))) :: 8 word) OR push_bit 8 (
    ucast (ucast (drop_bit 8 (drop_bit 8 (drop_bit 8 (drop_bit 8 (drop_bit 8 v))))) :: 8 word)
      OR push_bit 8 (
    ucast (ucast (drop_bit 8 (drop_bit 8 (drop_bit 8 (drop_bit 8 (drop_bit 8
      (drop_bit 8 v)))))) :: 8 word) OR push_bit 8 (
    ucast (ucast (drop_bit 8 (drop_bit 8 (drop_bit 8 (drop_bit 8 (drop_bit 8
      (drop_bit 8 (drop_bit 8 v))))))) :: 8 word))))))))"
    by (simp add: PutUint64_def push_bit_or or.assoc)
  also have "\<dots> = v"
  proof -
    have "drop_bit 8 (drop_bit 8 (drop_bit 8 (drop_bit 8 (drop_bit 8 (drop_bit 8
      (drop_bit 8 (drop_bit 8 v))))))) = 0"
      by (simp add: drop_bit_drop_bit)
    then show ?thesis
      by (simp only: top8 split8)
  qed
  finally show ?thesis .
qed

lemma length_PutUint16 [simp]: "length (PutUint16 v) = 2"
  by (simp add: PutUint16_def)

lemma length_PutUint32 [simp]: "length (PutUint32 v) = 4"
  by (simp add: PutUint32_def)

lemma length_PutUint64 [simp]: "length (PutUint64 v) = 8"
  by (simp add: PutUint64_def)

lemma length_bytes_of_string [simp]: "length (bytes_of_string s) = length s"
  by (simp add: bytes_of_string_def)

lemma string_of_bytes_of_string [simp]: "string_of_bytes (bytes_of_string s) = s"
proof -
  have "char_of (unat (of_nat (of_char c) :: byte)) = c" for c :: char
  proof -
    have "of_char c < (256 :: nat)" by simp
    then have "unat (of_nat (of_char c) :: byte) = of_char c"
      by (simp add: unat_of_nat)
    then show ?thesis by simp
  qed
  then show ?thesis
    by (simp add: string_of_bytes_def bytes_of_string_def comp_def map_idI)
qed

lemma unat_of_nat_le:
  assumes "n \<le> unat (m :: 'a::len word)"
  shows "unat (of_nat n :: 'a word) = n" and "(of_nat n :: 'a word) \<le> m"
proof -
  show u: "unat (of_nat n :: 'a word) = n"
    using assms by (rule le_unat_uoi)
  show "(of_nat n :: 'a word) \<le> m"
    using assms u by (simp add: word_le_nat_alt)
qed

subsection \<open>The header decoder\<close>

lemma two_bytes:
  assumes "2 \<le> avail r"
  obtains b0 b1 rest where "unread r = b0 # b1 # rest"
proof -
  have "2 \<le> length (unread r)"
    using assms avail_le_unread [of r] by simp
  then obtain b0 b1 rest where "unread r = b0 # b1 # rest"
    by (cases "unread r"; cases "tl (unread r)") auto
  then show thesis by (rule that)
qed

lemma copy_magic_two [simp]: "copy_magic m (b0 # b1 # bs) = (b0, b1)"
  by (cases m) simp

lemma Header_Read_short:
  "avail r < 2 \<Longrightarrow> \<exists>e h'. Header_Read h r = (Some e, h', advance r (avail r))"
  by (simp add: Header_Read_def ReadFull_eq min_def)

lemma Header_Read_bad_magic:
  assumes "unread r = b0 # b1 # rest" and "2 \<le> avail r" and "\<not> (b0 = 0x1e \<and> b1 = 0xc5)"
  shows "Header_Read h r = (Some ErrInvalidMagic, h\<lparr>magic := (b0, b1)\<rparr>, advance r 2)"
  using assms by (simp add: Header_Read_def ReadFull_eq min_def ValidateMagic_def Let_def)

lemma Header_Read_good_magic:
  assumes "unread r = 0x1e # 0xc5 # rest" and "2 \<le> avail r"
  shows "Header_Read h r =
    (if avail r < 3 then (Some EOF, h\<lparr>magic := (0x1e, 0xc5)\<rparr>, advance r 2)
     else if avail r < 11 then
       (Some (if avail r = 3 then EOF else ErrUnexpectedEOF),
        h\<lparr>magic := (0x1e, 0xc5), Type := Uint8 (take 1 rest)\<rparr>, advance r (avail r))
     else (None, h\<lparr>magic := (0x1e, 0xc5), Type := Uint8 (take 1 rest),
                    Len := Uint64 (take 8 (drop 1 rest))\<rparr>, advance r 11))"
  using assms
  by (auto simp add: Header_Read_def ReadFull_eq min_def ValidateMagic_def Let_def binary_Read_simps)

lemma Header_Read_consumed:
  "\<exists>k. k \<le> 11 \<and> k \<le> avail r \<and> snd (snd (Header_Read h r)) = advance r k"
proof (cases "avail r < 2")
  case True
  then show ?thesis
    using Header_Read_short [of r h] by (intro exI [of _ "avail r"]) auto
next
  case False
  then have a: "2 \<le> avail r" by simp
  then obtain b0 b1 rest where u: "unread r = b0 # b1 # rest"
    by (rule two_bytes)
  show ?thesis
  proof (cases "b0 = 0x1e \<and> b1 = 0xc5")
    case False
    then show ?thesis
      using Header_Read_bad_magic [OF u a, of h] a by (intro exI [of _ 2]) auto
  next
    case True
    then have u': "unread r = 0x1e # 0xc5 # rest" using u by simp
    show ?thesis
    proof (cases "avail r < 3")
      case True
      then show ?thesis
        using Header_Read_good_magic [OF u' a, of h] a by (intro exI [of _ 2]) auto
    next
      case n3: False
      show ?thesis
      proof (cases "avail r < 11")
        case True
        then show ?thesis
          using Header_Read_good_magic [OF u' a, of h] n3 by (intro exI [of _ "avail r"]) auto
      next
        case False
        then show ?thesis
          using Header_Read_good_magic [OF u' a, of h] n3 by (intro exI [of _ 11]) auto
      qed
    qed
  qed
qed

lemma Header_Read_ok:
  assumes "Header_Read h r = (None, h', r')"
  shows "11 \<le> avail r \<and> r' = advance r 11 \<and> take 2 (unread r) = [0x1e, 0xc5] \<and>
         Type h' = Uint8 (take 1 (drop 2 (unread r))) \<and>
         Len h' = Uint64 (take 8 (drop 3 (unread r)))"
proof (cases "avail r < 2")
  case True
  then show ?thesis
    using Header_Read_short [of r h] assms by auto
next
  case False
  then have a: "2 \<le> avail r" by simp
  then obtain b0 b1 rest where u: "unread r = b0 # b1 # rest"
    by (rule two_bytes)
  show ?thesis
  proof (cases "b0 = 0x1e \<and> b1 = 0xc5")
    case False
    then show ?thesis
      using Header_Read_bad_magic [OF u a, of h] assms by auto
  next
    case True
    then have u': "unread r = 0x1e # 0xc5 # rest" using u by simp
    show ?thesis
      using Header_Read_good_magic [OF u' a, of h] assms u'
      by (auto split: if_splits)
  qed
qed


lemma Header_Read_LimitReader_ok:
  assumes "Header_Read h0 (LimitReader r n) = (None, h, rh)"
  shows "unread rh = drop 11 r" and "11 \<le> length r" and "11 \<le> n"
  using Header_Read_ok [OF assms] by (auto simp add: LimitReader_def)

text \<open>
  \<^bold>\<open>Claim C5.\<close> \<^verbatim>\<open>Header.Read\<close> reads exactly two bytes for the magic marker. When
  these two bytes are not the fixed magic \<^verbatim>\<open>0x1e 0xc5\<close>, it fails with the
  invalid-magic error and the reader has given out these two bytes and no more: type and
  length are not read.
\<close>

theorem Header_Read_invalid_magic:
  assumes "unread r = b0 # b1 # rest" and "2 \<le> avail r" and "(b0, b1) \<noteq> (0x1e, 0xc5)"
  shows "Header_Read h r = (Some ErrInvalidMagic, h\<lparr>magic := (b0, b1)\<rparr>, advance r 2)
         \<and> unread (advance r 2) = rest"
  using assms Header_Read_bad_magic [of r b0 b1 rest h] by simp

theorem Header_Read_invalid_magic_witness:
  "unread (Stream [0x1e, 0xc4, 7, 8]) = 0x1e # 0xc4 # [7, 8] \<and> 2 \<le> avail (Stream [0x1e, 0xc4, 7, 8])
   \<and> (0x1e, 0xc4) \<noteq> (0x1e :: byte, 0xc5 :: byte)
   \<and> Header_Read zero_Header (Stream [0x1e, 0xc4, 7, 8])
       = (Some ErrInvalidMagic, zero_Header\<lparr>magic := (0x1e, 0xc4)\<rparr>, Stream [7, 8])"
  using Header_Read_invalid_magic [of "Stream [0x1e, 0xc4, 7, 8]" "0x1e" "0xc4" "[7, 8]" zero_Header]
  by simp

subsection \<open>The message decoders\<close>

lemma Ping_Read_result:
  assumes "Ping_Read p r = (e, p', r')"
  shows "\<exists>k. k \<le> avail r \<and> r' = advance r k \<and> (e = None \<longrightarrow> k = 16)
           \<and> (e \<noteq> None \<longrightarrow> Height p' = Height p)"
  using assms
  by (auto simp add: Ping_Read_def binary_Read_simps split: if_splits
      intro: exI [of _ "avail r"] exI [of _ 16])

lemma GetPeerAddrs_Read_result:
  assumes "GetPeerAddrs_Read p r = (e, p', r')"
  shows "\<exists>k. k \<le> avail r \<and> r' = advance r k \<and> (e = None \<longrightarrow> k = 4)
           \<and> (e \<noteq> None \<longrightarrow> p' = p)"
  using assms
  by (auto simp add: GetPeerAddrs_Read_def binary_Read_simps split: if_splits
      intro: exI [of _ "avail r"] exI [of _ 4])

lemma length_string_of_bytes [simp]: "length (string_of_bytes bs) = length bs"
  by (simp add: string_of_bytes_def)

lemma PeerError_Read_short:
  assumes "avail r < 12"
  shows "\<exists>e p'. PeerError_Read cfg p r = (Some e, p', advance r (avail r)) \<and> Message p' = Message p"
  using assms
  by (auto simp add: PeerError_Read_def binary_Read_simps Let_def)

lemma PeerError_Read_12:
  assumes "12 \<le> avail r"
  shows "PeerError_Read cfg p r =
    (let l = Uint64 (take 8 (drop 4 (unread r))); p1 = p\<lparr>Code := Uint32 (take 4 (unread r))\<rparr> in
     if l > maxStringLength cfg then (Some ErrInvalidMessageLen, p1, advance r 12)
     else if l > 0x7FFFFFFFFFFFFFFF then (Some PanicLenOutOfRange, p1, advance r 12)
     else if unat l \<le> avail r - 12 then
       (None, p1\<lparr>Message := string_of_bytes (take (unat l) (drop 12 (unread r)))\<rparr>,
        advance r (12 + unat l))
     else (Some (if avail r = 12 then EOF else ErrUnexpectedEOF), p1, advance r (avail r)))"
proof -
  have "4 \<le> avail r" and "8 \<le> avail r - 4" and "avail (advance r 12) = avail r - 12"
    using assms by simp_all
  then show ?thesis
    using assms
    by (simp add: PeerError_Read_def binary_Read_simps Let_def ReadFull_eq min_def add.commute)
qed

lemma PeerError_Read_result:
  assumes "PeerError_Read cfg p r = (e, p', r')"
  shows "\<exists>k. k \<le> avail r \<and> r' = advance r k \<and> (e = None \<longrightarrow> k = 12 + length (Message p'))
           \<and> (e \<noteq> None \<longrightarrow> Message p' = Message p)"
proof (cases "12 \<le> avail r")
  case False
  then show ?thesis
    using assms PeerError_Read_short [of r cfg p]
    by (intro exI [of _ "avail r"]) auto
next
  case True
  define l where "l = Uint64 (take 8 (drop 4 (unread r)))"
  have len: "unat l \<le> avail r - 12 \<Longrightarrow> length (take (unat l) (drop 12 (unread r))) = unat l"
    using avail_le_unread [of r] by simp
  consider (a) "l > maxStringLength cfg \<or> l > 0x7FFFFFFFFFFFFFFF"
    | (b) "\<not> l > maxStringLength cfg" "\<not> l > 0x7FFFFFFFFFFFFFFF" "unat l \<le> avail r - 12"
    | (c) "\<not> l > maxStringLength cfg" "\<not> l > 0x7FFFFFFFFFFFFFFF" "\<not> unat l \<le> avail r - 12"
    by blast
  then show ?thesis
  proof cases
    case a
    then show ?thesis
      using assms True PeerError_Read_12 [OF True, of cfg p] unfolding l_def
      by (intro exI [of _ 12]) (auto simp add: Let_def split: if_splits)
  next
    case b
    then show ?thesis
      using assms True PeerError_Read_12 [OF True, of cfg p] len unfolding l_def
      by (intro exI [of _ "12 + unat l"]) (auto simp add: Let_def l_def)
  next
    case c
    then show ?thesis
      using assms True PeerError_Read_12 [OF True, of cfg p] unfolding l_def
      by (intro exI [of _ "avail r"]) (auto simp add: Let_def)
  qed
qed


lemma PeerAddrs_Read_loop_fail:
  assumes "avail r < 3 + (if Uint8 (take 1 (unread r)) = 0 then 4 else 16)"
  shows "\<exists>e. PeerAddrs_Read_loop (Suc c) p r = (Some e, p, advance r (avail r))"
  using assms
  by (auto simp add: binary_Read_simps ReadFull_eq min_def IPv4len_def IPv6len_def)

lemma PeerAddrs_Read_loop_step:
  assumes "n = (if Uint8 (take 1 (unread r)) = 0 then 4 else 16)" and "3 + n \<le> avail r"
  shows "PeerAddrs_Read_loop (Suc c) p r =
     PeerAddrs_Read_loop c
       (p\<lparr>peers := peers p @ [\<lparr>IP = take n (drop 1 (unread r)),
              Port = uint (Uint16 (take 2 (drop (1 + n) (unread r)))), Zone = ''''\<rparr>]\<rparr>)
       (advance r (3 + n))"
  using assms
  by (auto simp add: binary_Read_simps ReadFull_eq min_def IPv4len_def IPv6len_def add.commute)

lemma PeerAddrs_Read_loop_result:
  "PeerAddrs_Read_loop c p r = (e, p', r') \<Longrightarrow>
   \<exists>k new. k \<le> avail r \<and> r' = advance r k \<and> peers p' = peers p @ new \<and>
     (e = None \<longrightarrow> length new = c \<and> k = sum_list (map entry_length new))"
proof (induction c arbitrary: p r)
  case 0
  then show ?case
    by (intro exI [of _ 0] exI [of _ "[]"]) simp
next
  case (Suc c)
  define n :: nat where "n = (if Uint8 (take 1 (unread r)) = 0 then 4 else 16)"
  show ?case
  proof (cases "3 + n \<le> avail r")
    case False
    then obtain e' where "PeerAddrs_Read_loop (Suc c) p r = (Some e', p, advance r (avail r))"
      using PeerAddrs_Read_loop_fail [of r c p] unfolding n_def by auto
    with Suc.prems show ?thesis
      by (intro exI [of _ "avail r"] exI [of _ "[]"]) simp
  next
    case True
    define a where "a = \<lparr>IP = take n (drop 1 (unread r)),
              Port = uint (Uint16 (take 2 (drop (1 + n) (unread r)))), Zone = ''''\<rparr>"
    have la: "entry_length a = 3 + n"
      using True avail_le_unread [of r] by (simp add: a_def entry_length_def)
    have "PeerAddrs_Read_loop c (p\<lparr>peers := peers p @ [a]\<rparr>) (advance r (3 + n)) = (e, p', r')"
      using PeerAddrs_Read_loop_step [OF n_def True, of c p] Suc.prems by (simp add: a_def)
    from Suc.IH [OF this] obtain k new where
      k: "k \<le> avail r - (3 + n)" and r': "r' = advance r (3 + n + k)"
      and ps: "peers p' = peers p @ a # new"
      and ok: "e = None \<longrightarrow> length new = c \<and> k = sum_list (map entry_length new)"
      by auto
    show ?thesis
      using True k r' ps ok la
      by (intro exI [of _ "3 + n + k"] exI [of _ "a # new"]) auto
  qed
qed

lemma PeerAddrs_Read_result:
  assumes "PeerAddrs_Read cfg p r = (e, p', r')"
  shows "\<exists>k new. k \<le> avail r \<and> r' = advance r k \<and> peers p' = peers p @ new \<and>
     (e = None \<longrightarrow> k = 4 + sum_list (map entry_length new))"
proof (cases "4 \<le> avail r")
  case False
  then show ?thesis
    using assms
    by (intro exI [of _ "avail r"] exI [of _ "[]"])
       (auto simp add: PeerAddrs_Read_def binary_Read_simps)
next
  case True
  define c where "c = Uint32 (take 4 (unread r))"
  show ?thesis
  proof (cases "c > maxPeerAddresses cfg")
    case True
    with \<open>4 \<le> avail r\<close> show ?thesis
      using assms unfolding c_def
      by (intro exI [of _ 4] exI [of _ "[]"])
         (auto simp add: PeerAddrs_Read_def binary_Read_simps)
  next
    case False
    with \<open>4 \<le> avail r\<close> have "PeerAddrs_Read_loop (unat c) p (advance r 4) = (e, p', r')"
      using assms unfolding c_def
      by (auto simp add: PeerAddrs_Read_def binary_Read_simps)
    from PeerAddrs_Read_loop_result [OF this] obtain k new where
      "k \<le> avail r - 4" "r' = advance r (4 + k)" "peers p' = peers p @ new"
      "e = None \<longrightarrow> length new = unat c \<and> k = sum_list (map entry_length new)"
      by auto
    with \<open>4 \<le> avail r\<close> show ?thesis
      by (intro exI [of _ "4 + k"] exI [of _ new]) auto
  qed
qed

lemma kept_on_failure_refl [simp]: "kept_on_failure m m"
  by (cases m) simp_all

lemma decoded_length_ge4: "4 \<le> decoded_length m m'"
  by (cases m') simp_all

lemma Pong_Read_result:
  assumes "Pong_Read p r = (e, p', r')"
  shows "\<exists>k. k \<le> avail r \<and> r' = advance r k \<and> (e = None \<longrightarrow> k = 16)
           \<and> (e \<noteq> None \<longrightarrow> Height (Ping p') = Height (Ping p))"
proof -
  obtain q where q: "Ping_Read (Ping p) r = (e, q, r')" and p': "p' = p\<lparr>Ping := q\<rparr>"
    using assms by (auto simp add: Pong_Read_def split: prod.splits)
  show ?thesis
    using Ping_Read_result [OF q] p' by auto
qed

lemma msg_Read_result:
  assumes "msg_Read cfg m r = (e, m', r')"
  shows "\<exists>k. k \<le> avail r \<and> r' = advance r k \<and> (e = None \<longrightarrow> k = decoded_length m m')
           \<and> (e \<noteq> None \<longrightarrow> kept_on_failure m m')"
proof (cases m)
  case (PingMsg p)
  then obtain q where q: "Ping_Read p r = (e, q, r')" and m': "m' = PingMsg q"
    using assms by (auto split: prod.splits)
  show ?thesis
    using Ping_Read_result [OF q] PingMsg m' by auto
next
  case (PongMsg p)
  then obtain q where q: "Pong_Read p r = (e, q, r')" and m': "m' = PongMsg q"
    using assms by (auto split: prod.splits)
  show ?thesis
    using Pong_Read_result [OF q] PongMsg m' by auto
next
  case (GetPeerAddrsMsg p)
  then obtain q where q: "GetPeerAddrs_Read p r = (e, q, r')" and m': "m' = GetPeerAddrsMsg q"
    using assms by (auto split: prod.splits)
  show ?thesis
    using GetPeerAddrs_Read_result [OF q] GetPeerAddrsMsg m' by auto
next
  case (PeerErrorMsg p)
  then obtain q where q: "PeerError_Read cfg p r = (e, q, r')" and m': "m' = PeerErrorMsg q"
    using assms by (auto split: prod.splits)
  show ?thesis
    using PeerError_Read_result [OF q] PeerErrorMsg m' by auto
next
  case (PeerAddrsMsg p)
  then obtain q where q: "PeerAddrs_Read cfg p r = (e, q, r')" and m': "m' = PeerAddrsMsg q"
    using assms by (auto split: prod.splits)
  show ?thesis
    using PeerAddrs_Read_result [OF q] PeerAddrsMsg m' by auto
qed

lemma sint_le_uint: "sint w \<le> uint w"
proof -
  have "- (2 ^ (LENGTH('a) - Suc 0)) \<le> (0 :: int)" by simp
  also have "0 \<le> uint w" by simp
  finally show ?thesis
    by (simp add: sint_uint signed_take_bit_int_less_eq_self_iff)
qed

lemma nat_sint_le_unat: "nat (sint w) \<le> unat w"
proof -
  have "nat (sint w) \<le> nat (uint w)"
    by (rule nat_mono) (rule sint_le_uint)
  then show ?thesis
    by (simp only: unat_eq_nat_uint)
qed

lemma msg_Read_LimitReader:
  assumes "msg_Read cfg msg (LimitReader body n) = (e, msg', rb)"
  shows "\<exists>k. rb = LimitedReader (drop k body) (n - int k) \<and> k \<le> length body \<and> k \<le> nat n
           \<and> (e = None \<longrightarrow> k = decoded_length msg msg')
           \<and> (e \<noteq> None \<longrightarrow> kept_on_failure msg msg')"
  using msg_Read_result [OF assms] by (auto simp add: LimitReader_def)

subsection \<open>What a decoder needs, stores and consumes\<close>

lemma length_readable [simp]: "length (readable r) = avail r"
  using avail_le_unread [of r] by (simp add: readable_def)

lemma take_drop_readable [simp]:
  "j + k \<le> avail r \<Longrightarrow> take k (drop j (readable r)) = take k (drop j (unread r))"
  by (simp add: readable_def drop_take min_def)

lemma take_readable [simp]: "k \<le> avail r \<Longrightarrow> take k (readable r) = take k (unread r)"
  by (simp add: readable_def min_def)

lemma readable_advance [simp]: "readable (advance r k) = drop k (readable r)"
  by (simp add: readable_def drop_take)

lemma readable_LimitReader: "readable (LimitReader body n) = take (nat n) body"
  by (simp add: readable_def LimitReader_def min_def)

lemma Ping_Read_cases:
  "Ping_Read p r =
    (if avail r < 8 then
       (Some (if avail r = 0 then EOF else ErrUnexpectedEOF), p, advance r (avail r))
     else if avail r < 16 then
       (Some (if avail r = 8 then EOF else ErrUnexpectedEOF),
        p\<lparr>TotalDifficulty := Uint64 (take 8 (unread r))\<rparr>, advance r (avail r))
     else (None, p\<lparr>TotalDifficulty := Uint64 (take 8 (unread r)),
                   Height := Uint64 (take 8 (drop 8 (unread r)))\<rparr>, advance r 16))"
  by (auto simp add: Ping_Read_def binary_Read_simps)

lemma GetPeerAddrs_Read_cases:
  "GetPeerAddrs_Read p r =
    (if avail r < 4 then
       (Some (if avail r = 0 then EOF else ErrUnexpectedEOF), p, advance r (avail r))
     else (None, p\<lparr>Capabilities := Uint32 (take 4 (unread r))\<rparr>, advance r 4))"
  by (auto simp add: GetPeerAddrs_Read_def binary_Read_simps)

lemma PeerError_Read_lt4:
  "avail r < 4 \<Longrightarrow> PeerError_Read cfg p r =
       (Some (if avail r = 0 then EOF else ErrUnexpectedEOF), p, advance r (avail r))"
  by (auto simp add: PeerError_Read_def binary_Read_simps)

lemma PeerError_Read_lt12:
  "4 \<le> avail r \<Longrightarrow> avail r < 12 \<Longrightarrow> PeerError_Read cfg p r =
       (Some (if avail r = 4 then EOF else ErrUnexpectedEOF),
        p\<lparr>Code := Uint32 (take 4 (unread r))\<rparr>, advance r (avail r))"
  by (auto simp add: PeerError_Read_def binary_Read_simps Let_def)

lemma Ping_Read_exact:
  assumes "Ping_Read p r = (e, p', r')"
  shows "(e = None) = (encoded_length (PingMsg p) (readable r) \<le> avail r)"
    and "PingMsg p' = stored_fields cfg (PingMsg p) (readable r)"
    and "e = None \<longrightarrow> r' = advance r (encoded_length (PingMsg p) (readable r))"
  using assms by (auto simp add: Ping_Read_cases split: if_splits)

lemma Pong_Read_exact:
  assumes "Pong_Read p r = (e, p', r')"
  shows "(e = None) = (encoded_length (PongMsg p) (readable r) \<le> avail r)"
    and "PongMsg p' = stored_fields cfg (PongMsg p) (readable r)"
    and "e = None \<longrightarrow> r' = advance r (encoded_length (PongMsg p) (readable r))"
  using assms by (auto simp add: Pong_Read_def Ping_Read_cases split: if_splits)

lemma GetPeerAddrs_Read_exact:
  assumes "GetPeerAddrs_Read p r = (e, p', r')"
  shows "(e = None) = (encoded_length (GetPeerAddrsMsg p) (readable r) \<le> avail r)"
    and "GetPeerAddrsMsg p' = stored_fields cfg (GetPeerAddrsMsg p) (readable r)"
    and "e = None \<longrightarrow> r' = advance r (encoded_length (GetPeerAddrsMsg p) (readable r))"
  using assms by (auto simp add: GetPeerAddrs_Read_cases split: if_splits)

lemma PeerError_Read_exact:
  assumes "PeerError_Read cfg p r = (e, p', r')"
  shows "(e = None) = (encoded_length (PeerErrorMsg p) (readable r) \<le> avail r
                        \<and> within_limits cfg (PeerErrorMsg p) (readable r))"
    and "PeerErrorMsg p' = stored_fields cfg (PeerErrorMsg p) (readable r)"
    and "e = None \<longrightarrow> r' = advance r (encoded_length (PeerErrorMsg p) (readable r))"
proof -
  consider (a) "avail r < 4" | (b) "4 \<le> avail r" "avail r < 12" | (c) "12 \<le> avail r"
    by linarith
  then have "(e = None) = (encoded_length (PeerErrorMsg p) (readable r) \<le> avail r
                        \<and> within_limits cfg (PeerErrorMsg p) (readable r))
    \<and> PeerErrorMsg p' = stored_fields cfg (PeerErrorMsg p) (readable r)
    \<and> (e = None \<longrightarrow> r' = advance r (encoded_length (PeerErrorMsg p) (readable r)))"
  proof cases
    case a
    then show ?thesis
      using assms by (auto simp add: PeerError_Read_lt4)
  next
    case b
    then show ?thesis
      using assms by (auto simp add: PeerError_Read_lt12)
  next
    case c
    have l: "Uint64 (take 8 (drop 4 (readable r))) = Uint64 (take 8 (drop 4 (unread r)))"
      and m: "Uint32 (take 4 (readable r)) = Uint32 (take 4 (unread r))"
      using c by simp_all
    have t: "take k (drop 12 (readable r)) = take k (drop 12 (unread r))" if "12 + k \<le> avail r" for k
      using that by simp
    show ?thesis
      using assms c PeerError_Read_12 [OF c, of cfg p] t
      by (auto simp add: Let_def l m not_less not_le split: if_splits)
  qed
  then show "(e = None) = (encoded_length (PeerErrorMsg p) (readable r) \<le> avail r
                        \<and> within_limits cfg (PeerErrorMsg p) (readable r))"
    and "PeerErrorMsg p' = stored_fields cfg (PeerErrorMsg p) (readable r)"
    and "e = None \<longrightarrow> r' = advance r (encoded_length (PeerErrorMsg p) (readable r))"
    by simp_all
qed

lemma readable_Cons:
  assumes "0 < avail r"
  shows "readable r = Uint8 (take 1 (unread r)) # drop 1 (readable r)"
proof -
  have "readable r \<noteq> []"
    using assms length_readable [of r] by (metis length_0_conv less_numeral_extra(3))
  then obtain f rest where fr: "readable r = f # rest"
    by (cases "readable r") auto
  have "take 1 (readable r) = take 1 (unread r)"
    using assms by simp
  then have "Uint8 (take 1 (unread r)) = f"
    using fr by (metis Uint8.simps(1) take_Suc_Cons One_nat_def take0)
  then show ?thesis
    using fr by simp
qed

lemma PeerAddrs_Read_loop_exact:
  "PeerAddrs_Read_loop c p r = (e, p', r') \<Longrightarrow>
     (e = None) = (entries_length c (readable r) \<le> avail r)
     \<and> peers p' = peers p @ whole_entries c (readable r)
     \<and> (e = None \<longrightarrow> r' = advance r (entries_length c (readable r)))"
proof (induction c arbitrary: p r)
  case 0
  then show ?case by simp
next
  case (Suc c)
  show ?case
  proof (cases "avail r = 0")
    case True
    then have rd0: "readable r = []"
      by (simp add: readable_def)
    obtain e' where fl: "PeerAddrs_Read_loop (Suc c) p r = (Some e', p, advance r (avail r))"
      using PeerAddrs_Read_loop_fail [of r c p] True by auto
    have "e = Some e'" and "p' = p"
      using Suc.prems [unfolded fl] by simp_all
    then show ?thesis
      using rd0 True by simp
  next
    case False
    define f where "f = Uint8 (take 1 (unread r))"
    define rest where "rest = drop 1 (readable r)"
    define n :: nat where "n = (if f = 0 then 4 else 16)"
    have rd: "readable r = f # rest"
      using readable_Cons [of r] False by (simp add: f_def rest_def)
    have lr: "length rest = avail r - 1"
      by (simp add: rest_def)
    show ?thesis
    proof (cases "3 + n \<le> avail r")
      case False
      then obtain e' where fl: "PeerAddrs_Read_loop (Suc c) p r = (Some e', p, advance r (avail r))"
        using PeerAddrs_Read_loop_fail [of r c p] by (auto simp add: n_def f_def)
      have "e = Some e'" and "p' = p"
        using Suc.prems [unfolded fl] by simp_all
      then show ?thesis
        using False lr \<open>avail r \<noteq> 0\<close>
        by (auto simp add: rd n_def IPv4len_def IPv6len_def Let_def)
    next
      case True
      define a where "a = \<lparr>IP = take n (drop 1 (unread r)),
              Port = uint (Uint16 (take 2 (drop (1 + n) (unread r)))), Zone = ''''\<rparr>"
      have a': "a = \<lparr>IP = take n rest, Port = uint (Uint16 (take 2 (drop n rest))), Zone = ''''\<rparr>"
        using True by (simp add: a_def rest_def)
      define tail where "tail = readable (advance r (3 + n))"
      have "n + 2 + 1 = 3 + n" by simp
      then have dr: "drop (n + 2) rest = tail"
        by (simp only: tail_def rest_def readable_advance drop_drop)
      have "PeerAddrs_Read_loop c (p\<lparr>peers := peers p @ [a]\<rparr>) (advance r (3 + n)) = (e, p', r')"
        using PeerAddrs_Read_loop_step [of n r c p] True Suc.prems
        by (simp add: a_def n_def f_def)
      from Suc.IH [OF this]
      have ih: "(e = None) = (entries_length c tail \<le> avail r - (3 + n))"
        "peers p' = peers p @ a # whole_entries c tail"
        "e = None \<longrightarrow> r' = advance r (3 + n + entries_length c tail)"
        by (simp_all add: tail_def)
      have n': "(if f = 0 then IPv4len else IPv6len) = n"
        by (simp add: n_def IPv4len_def IPv6len_def)
      have el: "entries_length (Suc c) (readable r) = 3 + n + entries_length c tail"
        using dr by (simp add: rd n' Let_def)
      have we: "whole_entries (Suc c) (readable r) = a # whole_entries c tail"
        using True lr dr by (simp add: rd n' Let_def a')
      show ?thesis
        using ih True by (auto simp add: el we)
    qed
  qed
qed

lemma PeerAddrs_Read_exact:
  assumes "PeerAddrs_Read cfg p r = (e, p', r')"
  shows "(e = None) = (encoded_length (PeerAddrsMsg p) (readable r) \<le> avail r
                        \<and> within_limits cfg (PeerAddrsMsg p) (readable r))"
    and "PeerAddrsMsg p' = stored_fields cfg (PeerAddrsMsg p) (readable r)"
    and "e = None \<longrightarrow> r' = advance r (encoded_length (PeerAddrsMsg p) (readable r))"
proof -
  have "(e = None) = (encoded_length (PeerAddrsMsg p) (readable r) \<le> avail r
                        \<and> within_limits cfg (PeerAddrsMsg p) (readable r))
    \<and> PeerAddrsMsg p' = stored_fields cfg (PeerAddrsMsg p) (readable r)
    \<and> (e = None \<longrightarrow> r' = advance r (encoded_length (PeerAddrsMsg p) (readable r)))"
  proof (cases "4 \<le> avail r")
    case False
    then show ?thesis
      using assms by (auto simp add: PeerAddrs_Read_def binary_Read_simps)
  next
    case True
    let ?c = "Uint32 (take 4 (unread r))"
    show ?thesis
    proof (cases "?c > maxPeerAddresses cfg")
      case True
      with \<open>4 \<le> avail r\<close> show ?thesis
        using assms
        by (auto simp add: PeerAddrs_Read_def binary_Read_simps)
    next
      case False
      with \<open>4 \<le> avail r\<close> have "PeerAddrs_Read_loop (unat ?c) p (advance r 4) = (e, p', r')"
        using assms
        by (auto simp add: PeerAddrs_Read_def binary_Read_simps)
      from PeerAddrs_Read_loop_exact [OF this] show ?thesis
        using True False by (auto simp add: not_less)
    qed
  qed
  then show "(e = None) = (encoded_length (PeerAddrsMsg p) (readable r) \<le> avail r
                        \<and> within_limits cfg (PeerAddrsMsg p) (readable r))"
    and "PeerAddrsMsg p' = stored_fields cfg (PeerAddrsMsg p) (readable r)"
    and "e = None \<longrightarrow> r' = advance r (encoded_length (PeerAddrsMsg p) (readable r))"
    by simp_all
qed

lemma msg_Read_exact:
  assumes "msg_Read cfg msg r = (e, msg', r')"
  shows "(e = None) = (encoded_length msg (readable r) \<le> avail r
                        \<and> within_limits cfg msg (readable r))"
    and "msg' = stored_fields cfg msg (readable r)"
    and "e = None \<longrightarrow> r' = advance r (encoded_length msg (readable r))"
proof -
  have "(e = None) = (encoded_length msg (readable r) \<le> avail r
                        \<and> within_limits cfg msg (readable r))
    \<and> msg' = stored_fields cfg msg (readable r)
    \<and> (e = None \<longrightarrow> r' = advance r (encoded_length msg (readable r)))"
  proof (cases msg)
    case (PingMsg p)
    then obtain q where q: "Ping_Read p r = (e, q, r')" and m': "msg' = PingMsg q"
      using assms by (auto split: prod.splits)
    show ?thesis
      using Ping_Read_exact(1,3) [OF q] Ping_Read_exact(2) [OF q, of cfg] unfolding PingMsg m' by simp
  next
    case (PongMsg p)
    then obtain q where q: "Pong_Read p r = (e, q, r')" and m': "msg' = PongMsg q"
      using assms by (auto split: prod.splits)
    show ?thesis
      using Pong_Read_exact(1,3) [OF q] Pong_Read_exact(2) [OF q, of cfg] unfolding PongMsg m' by simp
  next
    case (GetPeerAddrsMsg p)
    then obtain q where q: "GetPeerAddrs_Read p r = (e, q, r')" and m': "msg' = GetPeerAddrsMsg q"
      using assms by (auto split: prod.splits)
    show ?thesis
      using GetPeerAddrs_Read_exact(1,3) [OF q] GetPeerAddrs_Read_exact(2) [OF q, of cfg] unfolding GetPeerAddrsMsg m' by simp
  next
    case (PeerErrorMsg p)
    then obtain q where q: "PeerError_Read cfg p r = (e, q, r')" and m': "msg' = PeerErrorMsg q"
      using assms by (auto split: prod.splits)
    show ?thesis
      using PeerError_Read_exact [OF q] unfolding PeerErrorMsg m' by simp
  next
    case (PeerAddrsMsg p)
    then obtain q where q: "PeerAddrs_Read cfg p r = (e, q, r')" and m': "msg' = PeerAddrsMsg q"
      using assms by (auto split: prod.splits)
    show ?thesis
      using PeerAddrs_Read_exact [OF q] unfolding PeerAddrsMsg m' by simp
  qed
  then show "(e = None) = (encoded_length msg (readable r) \<le> avail r
                        \<and> within_limits cfg msg (readable r))"
    and "msg' = stored_fields cfg msg (readable r)"
    and "e = None \<longrightarrow> r' = advance r (encoded_length msg (readable r))"
    by simp_all
qed

lemma advance_eq_iff:
  assumes "a \<le> avail r" and "b \<le> avail r" and "advance r a = advance r b"
  shows "a = b"
proof -
  have "length (unread (advance r a)) = length (unread (advance r b))"
    using assms(3) by simp
  then show ?thesis
    using assms(1,2) avail_le_unread [of r] by simp
qed

lemma decoded_length_encoded_length:
  assumes "msg_Read cfg msg r = (None, msg', r')"
  shows "decoded_length msg msg' = encoded_length msg (readable r)"
    and "encoded_length msg (readable r) \<le> avail r"
proof -
  obtain k where k: "k \<le> avail r" "r' = advance r k" "k = decoded_length msg msg'"
    using msg_Read_result [OF assms] by auto
  show le: "encoded_length msg (readable r) \<le> avail r"
    using msg_Read_exact(1) [OF assms] by simp
  have "r' = advance r (encoded_length msg (readable r))"
    using msg_Read_exact(3) [OF assms] by simp
  then show "decoded_length msg msg' = encoded_length msg (readable r)"
    using advance_eq_iff [OF k(1) le] k by simp
qed

lemma first_field_failure:
  "length bs < first_field_width msg \<Longrightarrow> stored_fields cfg msg bs = msg"
  by (cases msg) auto

lemma ReadMessage_cases:
  "ReadMessage cfg r msg =
     (case Header_Read zero_Header (LimitReader r (sint (HeaderLen cfg))) of
        (Some e, h, rh) \<Rightarrow> ((0, Some e), msg, unread rh)
      | (None, h, rh) \<Rightarrow>
          if Type h \<noteq> msg_Type cfg msg
            then ((HeaderLen cfg, Some ErrUnexpectedMessageType), msg, drop 11 r)
          else if Len h > MaxMsgLen cfg
            then ((HeaderLen cfg, Some ErrTooBigMessage), msg, drop 11 r)
          else (case msg_Read cfg msg (LimitReader (drop 11 r) (sint (Len h))) of
                  (e, msg', rb) \<Rightarrow> ((HeaderLen cfg + Len h, e), msg', unread rb)))"
proof (cases "Header_Read zero_Header (LimitReader r (sint (HeaderLen cfg)))")
  case (fields e h rh)
  show ?thesis
  proof (cases e)
    case None
    then have "unread rh = drop 11 r"
      using Header_Read_LimitReader_ok(1) [of zero_Header r "sint (HeaderLen cfg)" h rh] fields
      by simp
    then show ?thesis
      using fields None by (simp add: ReadMessage_def Let_def)
  next
    case (Some a)
    then show ?thesis
      using fields by (simp add: ReadMessage_def)
  qed
qed

subsection \<open>\<^verbatim>\<open>ReadMessage\<close>\<close>

text \<open>
  \<^bold>\<open>Claim C6.\<close> When the header decodes and its type tag differs from the \<^verbatim>\<open>Type()\<close>
  of the expected message, \<^verbatim>\<open>ReadMessage\<close> fails with the unexpected-message-type
  error, returns the header length as the count, leaves the message as it was, and has
  taken the eleven bytes of the header from the stream and no byte of the body.
\<close>

theorem ReadMessage_type_mismatch:
  assumes "Header_Read zero_Header (LimitReader r (sint (HeaderLen cfg))) = (None, h, rh)"
    and "Type h \<noteq> msg_Type cfg msg"
  shows "ReadMessage cfg r msg = ((HeaderLen cfg, Some ErrUnexpectedMessageType), msg, drop 11 r)"
  using assms Header_Read_LimitReader_ok(1) [OF assms(1)]
  by (simp add: ReadMessage_def)

theorem ReadMessage_type_mismatch_witness:
  "ReadMessage example_config ping_frame (PongMsg \<lparr>Ping = \<lparr>TotalDifficulty = 0, Height = 0\<rparr>\<rparr>)
     = ((11, Some ErrUnexpectedMessageType),
        PongMsg \<lparr>Ping = \<lparr>TotalDifficulty = 0, Height = 0\<rparr>\<rparr>, drop 11 ping_frame)"
proof -
  have h: "Header_Read zero_Header (LimitReader ping_frame (sint (HeaderLen example_config)))
      = (None, \<lparr>magic = (0x1e, 0xc5), Type = 0, Len = 16\<rparr>, LimitedReader (drop 11 ping_frame) 0)"
    by (simp add: decode_defs)
  have t: "Type \<lparr>magic = (0x1e, 0xc5), Type = 0, Len = 16\<rparr>
      \<noteq> msg_Type example_config (PongMsg \<lparr>Ping = \<lparr>TotalDifficulty = 0, Height = 0\<rparr>\<rparr>)"
    by (simp add: example_config_def)
  show ?thesis
    using ReadMessage_type_mismatch [OF h t] by (simp add: example_config_def)
qed

text \<open>
  \<^bold>\<open>Claim C10.\<close> When the header is valid, has the expected type and a length within
  the maximum, and the body decoder fails, \<^verbatim>\<open>ReadMessage\<close> returns that error with the
  count header length + declared length, whatever the decoder has consumed.
\<close>

theorem ReadMessage_body_error_count:
  assumes "Header_Read zero_Header (LimitReader r (sint (HeaderLen cfg))) = (None, h, rh)"
    and "Type h = msg_Type cfg msg" and "Len h \<le> MaxMsgLen cfg"
    and "msg_Read cfg msg (LimitReader (drop 11 r) (sint (Len h))) = (Some e, msg', rb)"
  shows "ReadMessage cfg r msg = ((HeaderLen cfg + Len h, Some e), msg', unread rb)"
  using assms Header_Read_LimitReader_ok(1) [OF assms(1)]
  by (simp add: ReadMessage_def Let_def not_less [symmetric])

theorem ReadMessage_body_error_count_witness:
  "ReadMessage example_config short_ping_frame (PingMsg \<lparr>TotalDifficulty = 0, Height = 0\<rparr>)
     = ((27, Some EOF), PingMsg \<lparr>TotalDifficulty = 1000, Height = 0\<rparr>, [])
   \<and> length short_ping_frame = 19"
proof -
  have h: "Header_Read zero_Header (LimitReader short_ping_frame (sint (HeaderLen example_config)))
      = (None, \<lparr>magic = (0x1e, 0xc5), Type = 0, Len = 16\<rparr>,
         LimitedReader (drop 11 short_ping_frame) 0)"
    by (simp add: decode_defs)
  have t: "Type \<lparr>magic = (0x1e, 0xc5), Type = 0, Len = 16\<rparr>
      = msg_Type example_config (PingMsg \<lparr>TotalDifficulty = 0, Height = 0\<rparr>)"
    by (simp add: example_config_def)
  have l: "Len \<lparr>magic = (0x1e, 0xc5), Type = 0, Len = 16\<rparr> \<le> MaxMsgLen example_config"
    by (simp add: example_config_def)
  have b: "msg_Read example_config (PingMsg \<lparr>TotalDifficulty = 0, Height = 0\<rparr>)
       (LimitReader (drop 11 short_ping_frame)
          (sint (Len \<lparr>magic = (0x1e, 0xc5), Type = 0, Len = 16\<rparr>)))
     = (Some EOF, PingMsg \<lparr>TotalDifficulty = 1000, Height = 0\<rparr>, LimitedReader [] 8)"
    by (simp add: decode_defs)
  show ?thesis
    using ReadMessage_body_error_count [OF h t l b]
    by (simp add: example_config_def short_ping_frame_def)
qed

text \<open>
  \<^bold>\<open>Claim C2.\<close> Every oversized declaration is rejected before its payload is read.
  \<^verbatim>\<open>ReadMessage\<close> fails on a header whose length exceeds \<^verbatim>\<open>MaxMsgLen\<close> with the
  stream advanced by the eleven header bytes only; \<^verbatim>\<open>PeerError.Read\<close> fails on a
  declared message length above \<^verbatim>\<open>maxStringLength\<close> with the reader advanced by the
  code and the length prefix only (twelve bytes); \<^verbatim>\<open>PeerAddrs.Read\<close> fails on a
  declared count above \<^verbatim>\<open>maxPeerAddresses\<close> with the reader advanced by the count
  prefix only (four bytes).
\<close>

theorem oversized_rejected:
  "(Header_Read zero_Header (LimitReader r (sint (HeaderLen cfg))) = (None, h, rh)
      \<and> Len h > MaxMsgLen cfg
    \<longrightarrow> ReadMessage cfg r msg =
          ((HeaderLen cfg,
            Some (if Type h \<noteq> msg_Type cfg msg then ErrUnexpectedMessageType
                  else ErrTooBigMessage)),
           msg, drop 11 r))
   \<and> (12 \<le> avail rd \<and> Uint64 (take 8 (drop 4 (unread rd))) > maxStringLength cfg
    \<longrightarrow> PeerError_Read cfg pe rd =
          (Some ErrInvalidMessageLen, pe\<lparr>Code := Uint32 (take 4 (unread rd))\<rparr>, advance rd 12))
   \<and> (4 \<le> avail rd' \<and> Uint32 (take 4 (unread rd')) > maxPeerAddresses cfg
    \<longrightarrow> PeerAddrs_Read cfg pa rd' = (Some ErrInvalidPeersCount, pa, advance rd' 4))"
proof (intro conjI impI)
  assume a: "Header_Read zero_Header (LimitReader r (sint (HeaderLen cfg))) = (None, h, rh)
      \<and> Len h > MaxMsgLen cfg"
  then have "unread rh = drop 11 r"
    using Header_Read_LimitReader_ok(1) by blast
  then show "ReadMessage cfg r msg =
          ((HeaderLen cfg,
            Some (if Type h \<noteq> msg_Type cfg msg then ErrUnexpectedMessageType
                  else ErrTooBigMessage)),
           msg, drop 11 r)"
    using a by (simp add: ReadMessage_def)
next
  assume "12 \<le> avail rd \<and> Uint64 (take 8 (drop 4 (unread rd))) > maxStringLength cfg"
  then show "PeerError_Read cfg pe rd =
          (Some ErrInvalidMessageLen, pe\<lparr>Code := Uint32 (take 4 (unread rd))\<rparr>, advance rd 12)"
    by (auto simp add: PeerError_Read_def binary_Read_simps Let_def)
next
  assume "4 \<le> avail rd' \<and> Uint32 (take 4 (unread rd')) > maxPeerAddresses cfg"
  then show "PeerAddrs_Read cfg pa rd' = (Some ErrInvalidPeersCount, pa, advance rd' 4)"
    by (simp add: PeerAddrs_Read_def binary_Read_simps)
qed

theorem oversized_rejected_witness:
  "ReadMessage example_config oversized_frame (PingMsg \<lparr>TotalDifficulty = 0, Height = 0\<rparr>)
     = ((11, Some ErrTooBigMessage), PingMsg \<lparr>TotalDifficulty = 0, Height = 0\<rparr>, [7, 7])
   \<and> PeerError_Read example_config \<lparr>Code = 0, Message = ''''\<rparr>
        (Stream [0, 0, 0, 7, 0, 0, 0, 0, 0, 0, 4, 1, 65, 66])
     = (Some ErrInvalidMessageLen, \<lparr>Code = 7, Message = ''''\<rparr>, Stream [65, 66])
   \<and> PeerAddrs_Read example_config \<lparr>peers = []\<rparr>
        (Stream [0, 0, 0x10, 0x01, 0, 1, 2, 3, 4, 0, 80])
     = (Some ErrInvalidPeersCount, \<lparr>peers = []\<rparr>, Stream [0, 1, 2, 3, 4, 0, 80])"
proof -
  have h: "Header_Read zero_Header (LimitReader oversized_frame (sint (HeaderLen example_config)))
      = (None, \<lparr>magic = (0x1e, 0xc5), Type = 0, Len = 20000001\<rparr>, LimitedReader [7, 7] 0)"
    by (simp add: decode_defs)
  show ?thesis
    using h oversized_rejected [where cfg = example_config and r = oversized_frame
        and h = "\<lparr>magic = (0x1e, 0xc5), Type = 0, Len = 20000001\<rparr>"
        and rh = "LimitedReader [7, 7] 0"
        and msg = "PingMsg \<lparr>TotalDifficulty = 0, Height = 0\<rparr>"
        and rd = "Stream [0, 0, 0, 7, 0, 0, 0, 0, 0, 0, 4, 1, 65, 66]"
        and pe = "\<lparr>Code = 0, Message = ''''\<rparr>"
        and rd' = "Stream [0, 0, 0x10, 0x01, 0, 1, 2, 3, 4, 0, 80]"
        and pa = "\<lparr>peers = []\<rparr>"]
    by (simp add: example_config_def oversized_frame_def)
qed

text \<open>
  Claim C3 as stated, that a successful \<^verbatim>\<open>Read\<close> consumes exactly the body length
  declared in the header, fails: under a header that declares 17 bytes, \<^verbatim>\<open>Ping.Read\<close>
  succeeds after 16 bytes, \<^verbatim>\<open>ReadMessage\<close> returns 28 and no error, and has taken
  27 bytes from the stream.
\<close>

theorem exact_consumption_counterexample:
  "ReadMessage example_config long_ping_frame (PingMsg \<lparr>TotalDifficulty = 0, Height = 0\<rparr>)
     = ((28, None), PingMsg \<lparr>TotalDifficulty = 1000, Height = 42\<rparr>, [0xFF])
   \<and> length long_ping_frame - length [0xFF :: byte] \<noteq> 11 + 17
   \<and> msg_Read example_config (PingMsg \<lparr>TotalDifficulty = 0, Height = 0\<rparr>)
        (LimitReader (drop 11 long_ping_frame) 17)
     = (None, PingMsg \<lparr>TotalDifficulty = 1000, Height = 42\<rparr>, LimitedReader [0xFF] 1)"
  by (simp add: decode_defs)

text \<open>
  \<^bold>\<open>Claim C3, amended.\<close> For every message variant, \<^verbatim>\<open>Read\<close> succeeds exactly when
  the reader can deliver the whole encoding that starts at its front (\<open>encoded_length\<close>)
  and the declared text length and count are within their maxima; in particular it fails
  whenever the bounded reader is exhausted before the fields are complete. A successful
  \<^verbatim>\<open>Read\<close> consumes exactly that encoding, the bytes of the fields it decoded
  (\<open>decoded_length\<close>), which from a reader limited to \<open>n\<close> bytes is at most \<open>n\<close>: it
  does not look at what the declared length leaves over. Consequently \<^verbatim>\<open>ReadMessage\<close>,
  after a header that passes its checks, succeeds exactly when the declared length
  holds a whole encoding within the maxima, and a successful \<^verbatim>\<open>ReadMessage\<close> has
  consumed the eleven header bytes and the decoded fields, at most the declared length,
  and returns header length + declared length.
\<close>

theorem successful_Read_consumes_decoded_length:
  "((fst (msg_Read cfg msg rd) = None) =
      (encoded_length msg (readable rd) \<le> avail rd \<and> within_limits cfg msg (readable rd)))
   \<and> (avail rd < encoded_length msg (readable rd) \<longrightarrow> fst (msg_Read cfg msg rd) \<noteq> None)
   \<and> (msg_Read cfg msg rd = (None, msg', rd') \<longrightarrow>
      rd' = advance rd (encoded_length msg (readable rd))
      \<and> decoded_length msg msg' = encoded_length msg (readable rd))
   \<and> (msg_Read cfg msg (LimitReader body n) = (None, msg', rb) \<longrightarrow>
      rb = LimitedReader (drop (decoded_length msg msg') body) (n - int (decoded_length msg msg'))
      \<and> decoded_length msg msg' \<le> length body \<and> int (decoded_length msg msg') \<le> n)
   \<and> (Header_Read zero_Header (LimitReader r (sint (HeaderLen cfg))) = (None, h, rh)
        \<and> Type h = msg_Type cfg msg \<and> Len h \<le> MaxMsgLen cfg \<longrightarrow>
      (snd (fst (ReadMessage cfg r msg)) = None) =
        (encoded_length msg (take (nat (sint (Len h))) (drop 11 r))
           \<le> length (take (nat (sint (Len h))) (drop 11 r))
         \<and> within_limits cfg msg (take (nat (sint (Len h))) (drop 11 r))))
   \<and> (Header_Read zero_Header (LimitReader r (sint (HeaderLen cfg))) = (None, h, rh)
        \<and> ReadMessage cfg r msg = ((cnt, None), msg', r') \<longrightarrow>
      r' = drop (11 + decoded_length msg msg') r
      \<and> 11 + decoded_length msg msg' \<le> length r
      \<and> decoded_length msg msg' \<le> unat (Len h)
      \<and> cnt = HeaderLen cfg + Len h)"
proof (intro conjI)
  obtain e m1 r1 where rd: "msg_Read cfg msg rd = (e, m1, r1)"
    by (cases "msg_Read cfg msg rd") auto
  show iff: "(fst (msg_Read cfg msg rd) = None) =
      (encoded_length msg (readable rd) \<le> avail rd \<and> within_limits cfg msg (readable rd))"
    using msg_Read_exact(1) [OF rd] rd by simp
  show "avail rd < encoded_length msg (readable rd) \<longrightarrow> fst (msg_Read cfg msg rd) \<noteq> None"
    using iff by auto
next
  show "msg_Read cfg msg rd = (None, msg', rd') \<longrightarrow>
      rd' = advance rd (encoded_length msg (readable rd))
      \<and> decoded_length msg msg' = encoded_length msg (readable rd)"
    using msg_Read_exact(3) decoded_length_encoded_length(1) by blast
next
  show "msg_Read cfg msg (LimitReader body n) = (None, msg', rb) \<longrightarrow>
      rb = LimitedReader (drop (decoded_length msg msg') body) (n - int (decoded_length msg msg'))
      \<and> decoded_length msg msg' \<le> length body \<and> int (decoded_length msg msg') \<le> n"
  proof
    assume a: "msg_Read cfg msg (LimitReader body n) = (None, msg', rb)"
    from msg_Read_LimitReader [OF a] decoded_length_ge4 [of msg msg']
    show "rb = LimitedReader (drop (decoded_length msg msg') body)
                (n - int (decoded_length msg msg'))
        \<and> decoded_length msg msg' \<le> length body \<and> int (decoded_length msg msg') \<le> n"
      by auto
  qed
next
  show "Header_Read zero_Header (LimitReader r (sint (HeaderLen cfg))) = (None, h, rh)
        \<and> Type h = msg_Type cfg msg \<and> Len h \<le> MaxMsgLen cfg \<longrightarrow>
      (snd (fst (ReadMessage cfg r msg)) = None) =
        (encoded_length msg (take (nat (sint (Len h))) (drop 11 r))
           \<le> length (take (nat (sint (Len h))) (drop 11 r))
         \<and> within_limits cfg msg (take (nat (sint (Len h))) (drop 11 r)))"
  proof
    assume a: "Header_Read zero_Header (LimitReader r (sint (HeaderLen cfg))) = (None, h, rh)
        \<and> Type h = msg_Type cfg msg \<and> Len h \<le> MaxMsgLen cfg"
    obtain e m1 rb where b: "msg_Read cfg msg (LimitReader (drop 11 r) (sint (Len h))) = (e, m1, rb)"
      by (cases "msg_Read cfg msg (LimitReader (drop 11 r) (sint (Len h)))") auto
    have "snd (fst (ReadMessage cfg r msg)) = e"
      using a b by (simp add: ReadMessage_cases not_less [symmetric])
    moreover have "avail (LimitReader (drop 11 r) (sint (Len h)))
        = length (take (nat (sint (Len h))) (drop 11 r))"
      by (simp add: LimitReader_def)
    ultimately show "(snd (fst (ReadMessage cfg r msg)) = None) =
        (encoded_length msg (take (nat (sint (Len h))) (drop 11 r))
           \<le> length (take (nat (sint (Len h))) (drop 11 r))
         \<and> within_limits cfg msg (take (nat (sint (Len h))) (drop 11 r)))"
      using msg_Read_exact(1) [OF b] by (simp only: readable_LimitReader)
  qed
next
  show "Header_Read zero_Header (LimitReader r (sint (HeaderLen cfg))) = (None, h, rh)
        \<and> ReadMessage cfg r msg = ((cnt, None), msg', r') \<longrightarrow>
      r' = drop (11 + decoded_length msg msg') r
      \<and> 11 + decoded_length msg msg' \<le> length r
      \<and> decoded_length msg msg' \<le> unat (Len h)
      \<and> cnt = HeaderLen cfg + Len h"
  proof
    assume a: "Header_Read zero_Header (LimitReader r (sint (HeaderLen cfg))) = (None, h, rh)
        \<and> ReadMessage cfg r msg = ((cnt, None), msg', r')"
    then have hd: "Header_Read zero_Header (LimitReader r (sint (HeaderLen cfg))) = (None, h, rh)"
      and rm: "ReadMessage cfg r msg = ((cnt, None), msg', r')" by simp_all
    have u: "unread rh = drop 11 r" and l: "11 \<le> length r"
      using Header_Read_LimitReader_ok [OF hd] by simp_all
    obtain rb where body: "msg_Read cfg msg (LimitReader (drop 11 r) (sint (Len h))) = (None, msg', rb)"
      and r': "r' = unread rb" and cnt: "cnt = HeaderLen cfg + Len h"
      using rm hd u by (auto simp add: ReadMessage_def Let_def split: if_splits prod.splits)
    from msg_Read_LimitReader [OF body] obtain k where
      k: "rb = LimitedReader (drop k (drop 11 r)) (sint (Len h) - int k)"
        "k \<le> length (drop 11 r)" "k \<le> nat (sint (Len h))" "k = decoded_length msg msg'"
      by auto
    have "k \<le> unat (Len h)"
      using k(3) nat_sint_le_unat [of "Len h"] by simp
    then show "r' = drop (11 + decoded_length msg msg') r
        \<and> 11 + decoded_length msg msg' \<le> length r
        \<and> decoded_length msg msg' \<le> unat (Len h)
        \<and> cnt = HeaderLen cfg + Len h"
      using k r' cnt l by (simp add: add.commute)
  qed
qed

theorem successful_Read_consumes_decoded_length_witness:
  "msg_Read example_config (PeerErrorMsg \<lparr>Code = 0, Message = ''''\<rparr>) (Stream cut_error_body)
     = (Some ErrUnexpectedEOF, PeerErrorMsg \<lparr>Code = 7, Message = ''''\<rparr>, Stream [])
   \<and> avail (Stream cut_error_body)
      < encoded_length (PeerErrorMsg \<lparr>Code = 0, Message = ''''\<rparr>) (readable (Stream cut_error_body))
   \<and> fst (msg_Read example_config (PeerErrorMsg \<lparr>Code = 0, Message = ''''\<rparr>)
          (Stream cut_error_body)) \<noteq> None
   \<and> msg_Read example_config (PingMsg \<lparr>TotalDifficulty = 0, Height = 0\<rparr>)
        (LimitReader (drop 11 long_ping_frame) 17)
     = (None, PingMsg \<lparr>TotalDifficulty = 1000, Height = 42\<rparr>, LimitedReader [0xFF] 1)
   \<and> decoded_length (PingMsg \<lparr>TotalDifficulty = 0, Height = 0\<rparr>)
        (PingMsg \<lparr>TotalDifficulty = 1000, Height = 42\<rparr>) = 16
   \<and> int (decoded_length (PingMsg \<lparr>TotalDifficulty = 0, Height = 0\<rparr>)
        (PingMsg \<lparr>TotalDifficulty = 1000, Height = 42\<rparr>)) \<le> 17
   \<and> ReadMessage example_config long_ping_frame (PingMsg \<lparr>TotalDifficulty = 0, Height = 0\<rparr>)
     = ((28, None), PingMsg \<lparr>TotalDifficulty = 1000, Height = 42\<rparr>, [0xFF])
   \<and> [0xFF] = drop (11 + decoded_length (PingMsg \<lparr>TotalDifficulty = 0, Height = 0\<rparr>)
        (PingMsg \<lparr>TotalDifficulty = 1000, Height = 42\<rparr>)) long_ping_frame"
proof -
  note T1 = successful_Read_consumes_decoded_length [where cfg = example_config
        and msg = "PeerErrorMsg \<lparr>Code = 0, Message = ''''\<rparr>" and rd = "Stream cut_error_body"]
  note T2 = successful_Read_consumes_decoded_length [where cfg = example_config
        and msg = "PingMsg \<lparr>TotalDifficulty = 0, Height = 0\<rparr>"
        and body = "drop 11 long_ping_frame" and n = 17
        and msg' = "PingMsg \<lparr>TotalDifficulty = 1000, Height = 42\<rparr>"
        and rb = "LimitedReader [0xFF] 1" and r = long_ping_frame
        and h = "\<lparr>magic = (0x1e, 0xc5), Type = 0, Len = 17\<rparr>"
        and rh = "LimitedReader (drop 11 long_ping_frame) 0" and cnt = 28 and r' = "[0xFF]"]
  have f: "msg_Read example_config (PeerErrorMsg \<lparr>Code = 0, Message = ''''\<rparr>)
        (Stream cut_error_body)
     = (Some ErrUnexpectedEOF, PeerErrorMsg \<lparr>Code = 7, Message = ''''\<rparr>, Stream [])"
    by (simp add: decode_defs cut_error_body_def)
  have a: "avail (Stream cut_error_body)
      < encoded_length (PeerErrorMsg \<lparr>Code = 0, Message = ''''\<rparr>) (readable (Stream cut_error_body))"
    by (simp add: readable_def cut_error_body_def)
  have nf: "fst (msg_Read example_config (PeerErrorMsg \<lparr>Code = 0, Message = ''''\<rparr>)
          (Stream cut_error_body)) \<noteq> None"
    using T1 [THEN conjunct2, THEN conjunct1, rule_format, OF a] .
  have h: "Header_Read zero_Header (LimitReader long_ping_frame (sint (HeaderLen example_config)))
      = (None, \<lparr>magic = (0x1e, 0xc5), Type = 0, Len = 17\<rparr>,
         LimitedReader (drop 11 long_ping_frame) 0)"
    by (simp add: decode_defs)
  have b: "msg_Read example_config (PingMsg \<lparr>TotalDifficulty = 0, Height = 0\<rparr>)
        (LimitReader (drop 11 long_ping_frame) 17)
     = (None, PingMsg \<lparr>TotalDifficulty = 1000, Height = 42\<rparr>, LimitedReader [0xFF] 1)"
    by (simp add: decode_defs)
  have m: "ReadMessage example_config long_ping_frame (PingMsg \<lparr>TotalDifficulty = 0, Height = 0\<rparr>)
     = ((28, None), PingMsg \<lparr>TotalDifficulty = 1000, Height = 42\<rparr>, [0xFF])"
    by (simp add: decode_defs)
  have d: "decoded_length (PingMsg \<lparr>TotalDifficulty = 0, Height = 0\<rparr>)
        (PingMsg \<lparr>TotalDifficulty = 1000, Height = 42\<rparr>) = 16"
    by simp
  have le: "int (decoded_length (PingMsg \<lparr>TotalDifficulty = 0, Height = 0\<rparr>)
        (PingMsg \<lparr>TotalDifficulty = 1000, Height = 42\<rparr>)) \<le> 17"
    using T2 [THEN conjunct2, THEN conjunct2, THEN conjunct2, THEN conjunct1, rule_format, OF b]
    by blast
  have dr: "[0xFF] = drop (11 + decoded_length (PingMsg \<lparr>TotalDifficulty = 0, Height = 0\<rparr>)
        (PingMsg \<lparr>TotalDifficulty = 1000, Height = 42\<rparr>)) long_ping_frame"
    using T2 [THEN conjunct2, THEN conjunct2, THEN conjunct2, THEN conjunct2, THEN conjunct2,
        rule_format, OF conjI [OF h m]]
    by blast
  show ?thesis
    by (intro conjI) (fact f a nf b d le m dr)+
qed

text \<open>
  \<^bold>\<open>Claim C4.\<close> For every stream and expected message, what \<^verbatim>\<open>ReadMessage\<close> leaves
  is the stream without its first \<open>k\<close> bytes, where \<open>k\<close> is at most the header width
  (eleven bytes, and never more than \<^verbatim>\<open>HeaderLen\<close>) plus the length the header
  declares, when the header decodes: the header decoder is bounded by the first limited
  reader, the body decoder by the second.
\<close>

theorem ReadMessage_stays_within_frame:
  "\<exists>k. snd (snd (ReadMessage cfg r msg)) = drop k r \<and> k \<le> length r \<and>
     k \<le> min 11 (nat (sint (HeaderLen cfg))) +
         (case Header_Read zero_Header (LimitReader r (sint (HeaderLen cfg))) of
            (None, h, rh) \<Rightarrow> unat (Len h)
          | (Some e, h, rh) \<Rightarrow> 0)"
proof -
  obtain e h rh where hd: "Header_Read zero_Header (LimitReader r (sint (HeaderLen cfg))) = (e, h, rh)"
    by (cases "Header_Read zero_Header (LimitReader r (sint (HeaderLen cfg)))") auto
  show ?thesis
  proof (cases e)
    case (Some err)
    obtain k where k: "k \<le> 11" "k \<le> avail (LimitReader r (sint (HeaderLen cfg)))"
      "rh = advance (LimitReader r (sint (HeaderLen cfg))) k"
      using Header_Read_consumed [of "LimitReader r (sint (HeaderLen cfg))" zero_Header] hd
      by auto
    then show ?thesis
      using hd Some
      by (intro exI [of _ k]) (auto simp add: ReadMessage_def LimitReader_def)
  next
    case None
    have u: "unread rh = drop 11 r" and l: "11 \<le> length r" and n: "11 \<le> sint (HeaderLen cfg)"
      using Header_Read_LimitReader_ok [of zero_Header r "sint (HeaderLen cfg)" h rh] hd None
      by simp_all
    show ?thesis
    proof (cases "Type h \<noteq> msg_Type cfg msg \<or> Len h > MaxMsgLen cfg")
      case True
      then show ?thesis
        using hd None u l n
        by (intro exI [of _ 11]) (auto simp add: ReadMessage_def Let_def)
    next
      case False
      obtain e' msg' rb where
        body: "msg_Read cfg msg (LimitReader (drop 11 r) (sint (Len h))) = (e', msg', rb)"
        by (cases "msg_Read cfg msg (LimitReader (drop 11 r) (sint (Len h)))") auto
      from msg_Read_LimitReader [OF body] obtain k where
        k: "rb = LimitedReader (drop k (drop 11 r)) (sint (Len h) - int k)"
        "k \<le> length (drop 11 r)" "k \<le> nat (sint (Len h))"
        by auto
      have "k \<le> unat (Len h)"
        using k(3) nat_sint_le_unat [of "Len h"] by simp
      then show ?thesis
        using hd None u l n False body k
        by (intro exI [of _ "11 + k"]) (auto simp add: ReadMessage_def Let_def add.commute)
    qed
  qed
qed

theorem ReadMessage_stays_within_frame_witness:
  "\<exists>k. snd (snd (ReadMessage example_config long_ping_frame
                    (PingMsg \<lparr>TotalDifficulty = 0, Height = 0\<rparr>))) = drop k long_ping_frame
     \<and> k \<le> length long_ping_frame \<and> k \<le> 11 + 17"
proof -
  have h: "Header_Read zero_Header (LimitReader long_ping_frame (sint (HeaderLen example_config)))
      = (None, \<lparr>magic = (0x1e, 0xc5), Type = 0, Len = 17\<rparr>,
         LimitedReader (drop 11 long_ping_frame) 0)"
    by (simp add: decode_defs)
  show ?thesis
    using ReadMessage_stays_within_frame [of example_config long_ping_frame
        "PingMsg \<lparr>TotalDifficulty = 0, Height = 0\<rparr>"]
    by (simp add: h) (simp add: example_config_def)
qed

text \<open>
  Claim C7 as stated, that a failed decode leaves the message value without fields of
  the failed decode, fails: \<^verbatim>\<open>PeerError.Read\<close> on a body that ends after the code
  returns \<^verbatim>\<open>io.EOF\<close> and has stored the code.
\<close>

theorem all_or_nothing_counterexample:
  "msg_Read example_config (PeerErrorMsg \<lparr>Code = 0, Message = ''''\<rparr>) (Stream [0, 0, 0, 7])
     = (Some EOF, PeerErrorMsg \<lparr>Code = 7, Message = ''''\<rparr>, Stream [])
   \<and> PeerErrorMsg \<lparr>Code = 7, Message = ''''\<rparr> \<noteq> PeerErrorMsg \<lparr>Code = 0, Message = ''''\<rparr>"
  by (simp add: decode_defs)

text \<open>
  \<^bold>\<open>Claim C7, amended.\<close> A failed decode is reported by its error, and the decoders
  write into the message value as they go, whole fields only. After \<^verbatim>\<open>Read\<close> the
  message value is the value before the call in which exactly the fields are stored
  that the reader could deliver whole (\<open>stored_fields\<close>): no field and no entry is
  stored half-read. So when \<^verbatim>\<open>Read\<close> returns an error, a failure in the first field
  leaves the value as it was, and otherwise the first field is new and what follows is
  as before (\<^verbatim>\<open>Height\<close> of a Ping or Pong, \<^verbatim>\<open>Message\<close> of a PeerError), and a
  PeerAddrs holds the entries it had, followed by the whole entries read before the
  failure. \<^verbatim>\<open>ReadMessage\<close> leaves the message as it was when it fails at the header,
  the type or the size, and otherwise leaves what \<^verbatim>\<open>Read\<close> leaves from the declared
  length of the stream.
\<close>

theorem decode_stores_complete_fields:
  "(msg_Read cfg msg rd = (e, msg', rd') \<longrightarrow> msg' = stored_fields cfg msg (readable rd))
   \<and> (msg_Read cfg msg rd = (Some er, msg', rd') \<longrightarrow>
        kept_on_failure msg msg' \<and> (avail rd < first_field_width msg \<longrightarrow> msg' = msg))
   \<and> (ReadMessage cfg r msg = ((cnt, e), msg', r') \<longrightarrow>
        msg' =
          (case Header_Read zero_Header (LimitReader r (sint (HeaderLen cfg))) of
             (None, h, rh) \<Rightarrow>
               if Type h = msg_Type cfg msg \<and> Len h \<le> MaxMsgLen cfg
                 then stored_fields cfg msg (take (nat (sint (Len h))) (drop 11 r))
               else msg
           | (Some x, h, rh) \<Rightarrow> msg))
   \<and> (ReadMessage cfg r msg = ((cnt, Some er), msg', r') \<longrightarrow> kept_on_failure msg msg')"
proof (intro conjI impI)
  assume "msg_Read cfg msg rd = (e, msg', rd')"
  then show "msg' = stored_fields cfg msg (readable rd)"
    by (rule msg_Read_exact(2))
next
  assume a: "msg_Read cfg msg rd = (Some er, msg', rd')"
  from msg_Read_result [OF a] show "kept_on_failure msg msg'" by auto
  assume "avail rd < first_field_width msg"
  then show "msg' = msg"
    using msg_Read_exact(2) [OF a] first_field_failure [of "readable rd" msg cfg] by simp
next
  assume a: "ReadMessage cfg r msg = ((cnt, e), msg', r')"
  show "msg' =
          (case Header_Read zero_Header (LimitReader r (sint (HeaderLen cfg))) of
             (None, h, rh) \<Rightarrow>
               if Type h = msg_Type cfg msg \<and> Len h \<le> MaxMsgLen cfg
                 then stored_fields cfg msg (take (nat (sint (Len h))) (drop 11 r))
               else msg
           | (Some x, h, rh) \<Rightarrow> msg)"
  proof (cases "Header_Read zero_Header (LimitReader r (sint (HeaderLen cfg)))")
    case (fields e0 h rh)
    show ?thesis
    proof (cases "e0 = None \<and> Type h = msg_Type cfg msg \<and> Len h \<le> MaxMsgLen cfg")
      case False
      then show ?thesis
        using a fields
        by (auto simp add: ReadMessage_cases not_le split: option.splits if_splits)
    next
      case True
      obtain e1 m1 rb where b:
        "msg_Read cfg msg (LimitReader (drop 11 r) (sint (Len h))) = (e1, m1, rb)"
        by (cases "msg_Read cfg msg (LimitReader (drop 11 r) (sint (Len h)))") auto
      have "msg' = m1"
        using a fields True b by (simp add: ReadMessage_cases not_less [symmetric])
      then show ?thesis
        using msg_Read_exact(2) [OF b] fields True by (simp add: readable_LimitReader)
    qed
  qed
next
  assume a: "ReadMessage cfg r msg = ((cnt, Some er), msg', r')"
  obtain e0 h rh where hd: "Header_Read zero_Header (LimitReader r (sint (HeaderLen cfg))) = (e0, h, rh)"
    by (cases "Header_Read zero_Header (LimitReader r (sint (HeaderLen cfg)))") auto
  show "kept_on_failure msg msg'"
  proof (cases "e0 = None \<and> Type h = msg_Type cfg msg \<and> \<not> Len h > MaxMsgLen cfg")
    case False
    then have "msg' = msg"
      using a hd by (auto simp add: ReadMessage_def Let_def split: option.splits if_splits)
    then show ?thesis by simp
  next
    case True
    then obtain rb where
      "msg_Read cfg msg (LimitReader (unread rh) (sint (Len h))) = (Some er, msg', rb)"
      using a hd by (auto simp add: ReadMessage_def Let_def split: prod.splits)
    from msg_Read_result [OF this] show ?thesis by auto
  qed
qed

theorem decode_stores_complete_fields_witness:
  "msg_Read example_config (PeerErrorMsg \<lparr>Code = 0, Message = ''''\<rparr>) (Stream [0, 0, 0, 7])
     = (Some EOF, PeerErrorMsg \<lparr>Code = 7, Message = ''''\<rparr>, Stream [])
   \<and> PeerErrorMsg \<lparr>Code = 7, Message = ''''\<rparr>
     = stored_fields example_config (PeerErrorMsg \<lparr>Code = 0, Message = ''''\<rparr>)
        (readable (Stream [0, 0, 0, 7]))
   \<and> kept_on_failure (PeerErrorMsg \<lparr>Code = 0, Message = ''''\<rparr>)
        (PeerErrorMsg \<lparr>Code = 7, Message = ''''\<rparr>)
   \<and> msg_Read example_config (PeerErrorMsg \<lparr>Code = 5, Message = ''''\<rparr>) (Stream [0, 0, 7])
     = (Some ErrUnexpectedEOF, PeerErrorMsg \<lparr>Code = 5, Message = ''''\<rparr>, Stream [])
   \<and> avail (Stream [0, 0, 7]) < first_field_width (PeerErrorMsg \<lparr>Code = 5, Message = ''''\<rparr>)
   \<and> ReadMessage example_config short_ping_frame (PingMsg \<lparr>TotalDifficulty = 0, Height = 5\<rparr>)
     = ((27, Some EOF), PingMsg \<lparr>TotalDifficulty = 1000, Height = 5\<rparr>, [])
   \<and> PingMsg \<lparr>TotalDifficulty = 1000, Height = 5\<rparr>
     = stored_fields example_config (PingMsg \<lparr>TotalDifficulty = 0, Height = 5\<rparr>)
        (take 16 (drop 11 short_ping_frame))
   \<and> kept_on_failure (PingMsg \<lparr>TotalDifficulty = 0, Height = 5\<rparr>)
        (PingMsg \<lparr>TotalDifficulty = 1000, Height = 5\<rparr>)"
proof -
  note T1 = decode_stores_complete_fields [where cfg = example_config
        and msg = "PeerErrorMsg \<lparr>Code = 0, Message = ''''\<rparr>" and rd = "Stream [0, 0, 0, 7]"
        and e = "Some EOF" and er = EOF
        and msg' = "PeerErrorMsg \<lparr>Code = 7, Message = ''''\<rparr>" and rd' = "Stream []"]
  note T2 = decode_stores_complete_fields [where cfg = example_config
        and msg = "PeerErrorMsg \<lparr>Code = 5, Message = ''''\<rparr>" and rd = "Stream [0, 0, 7]"
        and er = ErrUnexpectedEOF
        and msg' = "PeerErrorMsg \<lparr>Code = 5, Message = ''''\<rparr>" and rd' = "Stream []"]
  note T3 = decode_stores_complete_fields [where cfg = example_config
        and msg = "PingMsg \<lparr>TotalDifficulty = 0, Height = 5\<rparr>" and r = short_ping_frame
        and e = "Some EOF" and er = EOF
        and msg' = "PingMsg \<lparr>TotalDifficulty = 1000, Height = 5\<rparr>"
        and cnt = 27 and r' = "[]"]
  have a: "msg_Read example_config (PeerErrorMsg \<lparr>Code = 0, Message = ''''\<rparr>) (Stream [0, 0, 0, 7])
     = (Some EOF, PeerErrorMsg \<lparr>Code = 7, Message = ''''\<rparr>, Stream [])"
    by (simp add: decode_defs)
  have s1: "PeerErrorMsg \<lparr>Code = 7, Message = ''''\<rparr>
     = stored_fields example_config (PeerErrorMsg \<lparr>Code = 0, Message = ''''\<rparr>)
        (readable (Stream [0, 0, 0, 7]))"
    using T1 [THEN conjunct1, rule_format, OF a] .
  have k1: "kept_on_failure (PeerErrorMsg \<lparr>Code = 0, Message = ''''\<rparr>)
        (PeerErrorMsg \<lparr>Code = 7, Message = ''''\<rparr>)"
    using T1 [THEN conjunct2, THEN conjunct1, rule_format, OF a] by blast
  have c: "msg_Read example_config (PeerErrorMsg \<lparr>Code = 5, Message = ''''\<rparr>) (Stream [0, 0, 7])
     = (Some ErrUnexpectedEOF, PeerErrorMsg \<lparr>Code = 5, Message = ''''\<rparr>, Stream [])"
    by (simp add: decode_defs)
  have w: "avail (Stream [0, 0, 7]) < first_field_width (PeerErrorMsg \<lparr>Code = 5, Message = ''''\<rparr>)"
    by simp
  have u: "PeerErrorMsg \<lparr>Code = 5, Message = ''''\<rparr> = PeerErrorMsg \<lparr>Code = 5, Message = ''''\<rparr>"
    using T2 [THEN conjunct2, THEN conjunct1, rule_format, OF c] w by blast
  have b: "ReadMessage example_config short_ping_frame (PingMsg \<lparr>TotalDifficulty = 0, Height = 5\<rparr>)
     = ((27, Some EOF), PingMsg \<lparr>TotalDifficulty = 1000, Height = 5\<rparr>, [])"
    by (simp add: decode_defs)
  have h: "Header_Read zero_Header (LimitReader short_ping_frame (sint (HeaderLen example_config)))
      = (None, \<lparr>magic = (0x1e, 0xc5), Type = 0, Len = 16\<rparr>,
         LimitedReader (drop 11 short_ping_frame) 0)"
    by (simp add: decode_defs)
  have s3: "PingMsg \<lparr>TotalDifficulty = 1000, Height = 5\<rparr>
     = stored_fields example_config (PingMsg \<lparr>TotalDifficulty = 0, Height = 5\<rparr>)
        (take 16 (drop 11 short_ping_frame))"
    using T3 [THEN conjunct2, THEN conjunct2, THEN conjunct1, rule_format, OF b]
    by (simp add: h) (simp add: example_config_def)
  have k3: "kept_on_failure (PingMsg \<lparr>TotalDifficulty = 0, Height = 5\<rparr>)
        (PingMsg \<lparr>TotalDifficulty = 1000, Height = 5\<rparr>)"
    using T3 [THEN conjunct2, THEN conjunct2, THEN conjunct2, rule_format, OF b] .
  show ?thesis
    by (intro conjI) (fact a s1 k1 c w b s3 k3)+
qed

subsection \<open>Round trip\<close>

lemma Ping_roundtrip:
  assumes "unread r = Ping_Bytes p" and "16 \<le> avail r"
  shows "Ping_Read p0 r = (None, p, advance r 16)"
  using assms
  by (simp add: Ping_Read_def Ping_Bytes_def binary_Read_simps)

lemma Pong_roundtrip:
  assumes "unread r = Pong_Bytes p" and "16 \<le> avail r"
  shows "Pong_Read p0 r = (None, p, advance r 16)"
  using assms Ping_roundtrip [of r "Ping p" "Ping p0"]
  by (simp add: Pong_Read_def Pong_Bytes_def)

lemma GetPeerAddrs_roundtrip:
  assumes "unread r = GetPeerAddrs_Bytes p" and "4 \<le> avail r"
  shows "GetPeerAddrs_Read p0 r = (None, p, advance r 4)"
  using assms
  by (simp add: GetPeerAddrs_Read_def GetPeerAddrs_Bytes_def binary_Read_simps)

lemma PeerError_roundtrip:
  assumes u: "unread r = PeerError_Bytes p" and a: "12 + length (Message p) \<le> avail r"
    and m: "length (Message p) \<le> unat (maxStringLength cfg)"
    and i: "length (Message p) < 2 ^ 63"
  shows "PeerError_Read cfg p0 r = (None, p, advance r (12 + length (Message p)))"
proof -
  define l :: "64 word" where "l = of_nat (length (Message p))"
  have ul: "unat l = length (Message p)" and lm: "l \<le> maxStringLength cfg"
    using unat_of_nat_le [OF m] by (simp_all add: l_def)
  have "unat l \<le> unat (0x7FFFFFFFFFFFFFFF :: 64 word)"
    using i ul by simp
  then have li: "l \<le> 0x7FFFFFFFFFFFFFFF"
    by (simp only: word_le_nat_alt)
  have len: "Uint64 (take 8 (drop 4 (unread r))) = l"
    by (simp add: u PeerError_Bytes_def l_def)
  have code: "Uint32 (take 4 (unread r)) = Code p"
    by (simp add: u PeerError_Bytes_def)
  have msg: "take (unat l) (drop 12 (unread r)) = bytes_of_string (Message p)"
    by (simp add: u PeerError_Bytes_def ul)
  have "12 \<le> avail r" using a by simp
  from PeerError_Read_12 [OF this, of cfg p0] show ?thesis
    using lm li a len code msg ul by (simp add: Let_def not_less [symmetric])
qed

lemma PeerAddrs_Bytes_loop_eq:
  assumes "list_all (\<lambda>a. length (IP a) = 4 \<or> length (IP a) = 16) as"
  shows "PeerAddrs_Bytes_loop as buff = Inr (buff @ concat (map entry_bytes as))"
  using assms
  by (induction as arbitrary: buff) (auto simp add: entry_bytes_def IPv4len_def IPv6len_def)

lemma length_entry_bytes [simp]: "length (entry_bytes a) = 3 + length (IP a)"
  by (simp add: entry_bytes_def)

lemma PeerAddrs_Read_loop_roundtrip:
  assumes "list_all (\<lambda>a. (length (IP a) = 4 \<or> length (IP a) = 16)
             \<and> 0 \<le> Port a \<and> Port a < 65536 \<and> Zone a = '''') as"
    and "unread r = concat (map entry_bytes as)"
    and "length (concat (map entry_bytes as)) \<le> avail r"
  shows "PeerAddrs_Read_loop (length as) p r =
           (None, p\<lparr>peers := peers p @ as\<rparr>, advance r (length (concat (map entry_bytes as))))"
  using assms
proof (induction as arbitrary: p r)
  case Nil
  then show ?case by simp
next
  case (Cons a as)
  define n where "n = length (IP a)"
  have n: "n = 4 \<or> n = 16" and port: "0 \<le> Port a" "Port a < 65536" and zone: "Zone a = ''''"
    using Cons.prems(1) by (simp_all add: n_def)
  have u: "unread r = entry_bytes a @ concat (map entry_bytes as)"
    using Cons.prems(2) by simp
  have flag: "(if Uint8 (take 1 (unread r)) = 0 then 4 else 16) = n"
    using n by (auto simp add: u entry_bytes_def IPv4len_def n_def)
  have av: "3 + n \<le> avail r"
    using Cons.prems(3) by (simp add: n_def)
  have ip: "take n (drop 1 (unread r)) = IP a"
    by (simp add: u entry_bytes_def n_def)
  have "take 2 (drop (1 + n) (unread r)) = PutUint16 (word_of_int (Port a))"
    by (simp add: u entry_bytes_def n_def)
  then have pt: "uint (Uint16 (take 2 (drop (1 + n) (unread r)))) = Port a"
    using port by (simp add: uint_word_of_int)
  have a: "\<lparr>IP = take n (drop 1 (unread r)),
            Port = uint (Uint16 (take 2 (drop (1 + n) (unread r)))), Zone = ''''\<rparr> = a"
    using ip pt zone by simp
  have step: "PeerAddrs_Read_loop (Suc (length as)) p r =
     PeerAddrs_Read_loop (length as) (p\<lparr>peers := peers p @ [a]\<rparr>) (advance r (3 + n))"
    using PeerAddrs_Read_loop_step [OF flag [symmetric] av, of "length as" p] by (simp only: a)
  have "PeerAddrs_Read_loop (length as) (p\<lparr>peers := peers p @ [a]\<rparr>) (advance r (3 + n)) =
     (None, (p\<lparr>peers := peers p @ [a]\<rparr>)\<lparr>peers := peers (p\<lparr>peers := peers p @ [a]\<rparr>) @ as\<rparr>,
      advance (advance r (3 + n)) (length (concat (map entry_bytes as))))"
  proof (rule Cons.IH)
    show "list_all (\<lambda>a. (length (IP a) = 4 \<or> length (IP a) = 16)
             \<and> 0 \<le> Port a \<and> Port a < 65536 \<and> Zone a = '''') as"
      using Cons.prems(1) by simp
    show "unread (advance r (3 + n)) = concat (map entry_bytes as)"
      by (simp add: u n_def)
    show "length (concat (map entry_bytes as)) \<le> avail (advance r (3 + n))"
      using Cons.prems(3) by (simp add: n_def)
  qed
  then show ?case
    using step by (simp add: n_def add.assoc)
qed

lemma PeerAddrs_Bytes_eq:
  assumes "list_all (\<lambda>a. length (IP a) = 4 \<or> length (IP a) = 16) (peers p)"
  shows "PeerAddrs_Bytes p =
           Inr (PutUint32 (of_nat (length (peers p))) @ concat (map entry_bytes (peers p)))"
  using PeerAddrs_Bytes_loop_eq [OF assms] by (simp add: PeerAddrs_Bytes_def)

lemma PeerAddrs_roundtrip:
  assumes v: "list_all (\<lambda>a. length (IP a) = 4 \<or> length (IP a) = 16) (peers p)"
    and f: "list_all (\<lambda>a. 0 \<le> Port a \<and> Port a < 65536 \<and> Zone a = '''') (peers p)"
    and c: "length (peers p) \<le> unat (maxPeerAddresses cfg)"
    and b: "b = PutUint32 (of_nat (length (peers p))) @ concat (map entry_bytes (peers p))"
    and u: "unread r = b" and a: "length b \<le> avail r"
  shows "PeerAddrs_Read cfg \<lparr>peers = []\<rparr> r = (None, p, advance r (length b))"
proof -
  define n :: "32 word" where "n = of_nat (length (peers p))"
  have un: "unat n = length (peers p)" and nm: "n \<le> maxPeerAddresses cfg"
    using unat_of_nat_le [OF c] by (simp_all add: n_def)
  have cnt: "Uint32 (take 4 (unread r)) = n"
    by (simp add: u b n_def)
  have a4: "4 \<le> avail r" using a b by simp
  have all: "list_all (\<lambda>a. (length (IP a) = 4 \<or> length (IP a) = 16)
             \<and> 0 \<le> Port a \<and> Port a < 65536 \<and> Zone a = '''') (peers p)"
    using v f by (simp add: list_all_iff)
  have "PeerAddrs_Read_loop (length (peers p)) \<lparr>peers = []\<rparr> (advance r 4) =
      (None, \<lparr>peers = []\<rparr>\<lparr>peers := peers \<lparr>peers = []\<rparr> @ peers p\<rparr>,
       advance (advance r 4) (length (concat (map entry_bytes (peers p)))))"
  proof (rule PeerAddrs_Read_loop_roundtrip [OF all])
    show "unread (advance r 4) = concat (map entry_bytes (peers p))"
      by (simp add: u b)
    show "length (concat (map entry_bytes (peers p))) \<le> avail (advance r 4)"
      using a b by simp
  qed
  then show ?thesis
    using a4 nm by (simp add: PeerAddrs_Read_def binary_Read_simps cnt un b not_less [symmetric])
qed

lemma msg_roundtrip:
  assumes "valid_fields cfg m" and "fits_encoding m"
  shows "\<exists>b. msg_Bytes m = Inr b \<and>
           (\<forall>r. unread r = b \<and> length b \<le> avail r \<longrightarrow>
                msg_Read cfg (zero_value m) r = (None, m, advance r (length b)))"
proof (cases m)
  case (PingMsg p)
  then show ?thesis
    using Ping_roundtrip [of _ p] by (simp add: Ping_Bytes_def)
next
  case (PongMsg p)
  then show ?thesis
    using Pong_roundtrip [of _ p] by (simp add: Pong_Bytes_def Ping_Bytes_def)
next
  case (GetPeerAddrsMsg p)
  then show ?thesis
    using GetPeerAddrs_roundtrip [of _ p] by (simp add: GetPeerAddrs_Bytes_def)
next
  case (PeerErrorMsg p)
  then show ?thesis
    using assms PeerError_roundtrip [of _ p cfg] by (simp add: PeerError_Bytes_def)
next
  case (PeerAddrsMsg p)
  define b where "b = PutUint32 (of_nat (length (peers p))) @ concat (map entry_bytes (peers p))"
  have v: "list_all (\<lambda>a. length (IP a) = 4 \<or> length (IP a) = 16) (peers p)"
    and f: "list_all (\<lambda>a. 0 \<le> Port a \<and> Port a < 65536 \<and> Zone a = '''') (peers p)"
    and c: "length (peers p) \<le> unat (maxPeerAddresses cfg)"
    using assms PeerAddrsMsg by simp_all
  show ?thesis
    using PeerAddrsMsg PeerAddrs_roundtrip [OF v f c b_def] PeerAddrs_Bytes_eq [OF v]
    by (intro exI [of _ b]) (simp add: b_def)
qed

text \<open>
  Claim C1 as stated, the round trip for all field values that satisfy the three listed
  conditions, fails on \<^verbatim>\<open>PeerAddrs\<close>. A \<^verbatim>\<open>net.TCPAddr\<close> has a \<^verbatim>\<open>Zone\<close>, which
  \<^verbatim>\<open>PeerAddrs.Bytes\<close> does not write: the link-local address \<^verbatim>\<open>[fe80::1%eth0]:8080\<close>
  comes back without its zone. Its \<^verbatim>\<open>Port\<close> is an \<^verbatim>\<open>int\<close>, of which
  \<^verbatim>\<open>uint16(peerAddr.Port)\<close> is written: the port 70000 comes back as 4464.
\<close>

theorem roundtrip_zone_port_counterexample:
  "valid_fields example_config
     (PeerAddrsMsg \<lparr>peers = [\<lparr>IP = [0xfe, 0x80, 0, 0, 0, 0, 0, 0, 0, 0, 0, 0, 0, 0, 0, 1],
                               Port = 8080, Zone = ''eth0''\<rparr>]\<rparr>)
   \<and> msg_Bytes
       (PeerAddrsMsg \<lparr>peers = [\<lparr>IP = [0xfe, 0x80, 0, 0, 0, 0, 0, 0, 0, 0, 0, 0, 0, 0, 0, 1],
                                 Port = 8080, Zone = ''eth0''\<rparr>]\<rparr>)
       = Inr [0, 0, 0, 1, 1, 0xfe, 0x80, 0, 0, 0, 0, 0, 0, 0, 0, 0, 0, 0, 0, 0, 1, 0x1F, 0x90]
   \<and> msg_Read example_config (PeerAddrsMsg \<lparr>peers = []\<rparr>)
        (Stream [0, 0, 0, 1, 1, 0xfe, 0x80, 0, 0, 0, 0, 0, 0, 0, 0, 0, 0, 0, 0, 0, 1, 0x1F, 0x90])
       = (None,
          PeerAddrsMsg \<lparr>peers = [\<lparr>IP = [0xfe, 0x80, 0, 0, 0, 0, 0, 0, 0, 0, 0, 0, 0, 0, 0, 1],
                                   Port = 8080, Zone = ''''\<rparr>]\<rparr>,
          Stream [])
   \<and> PeerAddrsMsg \<lparr>peers = [\<lparr>IP = [0xfe, 0x80, 0, 0, 0, 0, 0, 0, 0, 0, 0, 0, 0, 0, 0, 1],
                               Port = 8080, Zone = ''''\<rparr>]\<rparr>
       \<noteq> PeerAddrsMsg \<lparr>peers = [\<lparr>IP = [0xfe, 0x80, 0, 0, 0, 0, 0, 0, 0, 0, 0, 0, 0, 0, 0, 1],
                                   Port = 8080, Zone = ''eth0''\<rparr>]\<rparr>
   \<and> valid_fields example_config
     (PeerAddrsMsg \<lparr>peers = [\<lparr>IP = [127, 0, 0, 1], Port = 70000, Zone = ''''\<rparr>]\<rparr>)
   \<and> msg_Bytes (PeerAddrsMsg \<lparr>peers = [\<lparr>IP = [127, 0, 0, 1], Port = 70000, Zone = ''''\<rparr>]\<rparr>)
       = Inr [0, 0, 0, 1, 0, 127, 0, 0, 1, 0x11, 0x70]
   \<and> msg_Read example_config (PeerAddrsMsg \<lparr>peers = []\<rparr>)
        (Stream [0, 0, 0, 1, 0, 127, 0, 0, 1, 0x11, 0x70])
       = (None, PeerAddrsMsg \<lparr>peers = [\<lparr>IP = [127, 0, 0, 1], Port = 4464, Zone = ''''\<rparr>]\<rparr>,
          Stream [])
   \<and> PeerAddrsMsg \<lparr>peers = [\<lparr>IP = [127, 0, 0, 1], Port = 4464, Zone = ''''\<rparr>]\<rparr>
       \<noteq> PeerAddrsMsg \<lparr>peers = [\<lparr>IP = [127, 0, 0, 1], Port = 70000, Zone = ''''\<rparr>]\<rparr>"
  by (simp add: decode_defs PeerAddrs_Bytes_def PutUint32_def PutUint16_def)

text \<open>
  \<^bold>\<open>Claim C1, amended.\<close> For every message variant and all field values that are
  valid (text within the maximum, number of addresses within the maximum, every address
  4 or 16 bytes long) and that the encoding can carry (every port within 0..65535, no
  zone), \<^verbatim>\<open>Bytes()\<close> returns, and decoding its result with the variant's \<^verbatim>\<open>Read\<close>
  into the zero value succeeds, consumes all of it and yields the original value, both
  from a plain reader and from a reader limited to the length of the encoding.
\<close>

theorem Bytes_Read_roundtrip:
  assumes "valid_fields cfg m" and "fits_encoding m"
  shows "\<exists>b. msg_Bytes m = Inr b
           \<and> msg_Read cfg (zero_value m) (Stream b) = (None, m, Stream [])
           \<and> msg_Read cfg (zero_value m) (LimitReader b (int (length b)))
               = (None, m, LimitedReader [] 0)"
proof -
  obtain b where b: "msg_Bytes m = Inr b"
    and r: "\<And>r. unread r = b \<Longrightarrow> length b \<le> avail r \<Longrightarrow>
                msg_Read cfg (zero_value m) r = (None, m, advance r (length b))"
    using msg_roundtrip [OF assms] by blast
  show ?thesis
    using b r [of "Stream b"] r [of "LimitedReader b (int (length b))"]
    by (simp add: LimitReader_def)
qed

theorem Bytes_Read_roundtrip_witness:
  "valid_fields example_config
     (PeerAddrsMsg \<lparr>peers = [\<lparr>IP = [127, 0, 0, 1], Port = 4464, Zone = ''''\<rparr>]\<rparr>)
   \<and> fits_encoding
     (PeerAddrsMsg \<lparr>peers = [\<lparr>IP = [127, 0, 0, 1], Port = 4464, Zone = ''''\<rparr>]\<rparr>)
   \<and> msg_Read example_config (PeerAddrsMsg \<lparr>peers = []\<rparr>)
        (Stream [0, 0, 0, 1, 0, 127, 0, 0, 1, 0x11, 0x70])
       = (None, PeerAddrsMsg \<lparr>peers = [\<lparr>IP = [127, 0, 0, 1], Port = 4464, Zone = ''''\<rparr>]\<rparr>,
          Stream [])"
proof -
  have v: "valid_fields example_config
     (PeerAddrsMsg \<lparr>peers = [\<lparr>IP = [127, 0, 0, 1], Port = 4464, Zone = ''''\<rparr>]\<rparr>)"
    by (simp add: example_config_def)
  have f: "fits_encoding
     (PeerAddrsMsg \<lparr>peers = [\<lparr>IP = [127, 0, 0, 1], Port = 4464, Zone = ''''\<rparr>]\<rparr>)"
    by simp
  have b: "msg_Bytes (PeerAddrsMsg \<lparr>peers = [\<lparr>IP = [127, 0, 0, 1], Port = 4464, Zone = ''''\<rparr>]\<rparr>)
       = Inr [0, 0, 0, 1, 0, 127, 0, 0, 1, 0x11, 0x70]"
    by (simp add: PeerAddrs_Bytes_def PutUint32_def PutUint16_def IPv4len_def)
  show ?thesis
    using v f b Bytes_Read_roundtrip [OF v f] by auto
qed

subsection \<open>The buffered writer and \<^verbatim>\<open>WriteMessage\<close>\<close>

lemma bufio_Write_loop_done:
  "err b \<noteq> None \<or> length p \<le> Available b \<Longrightarrow> bufio_Write_loop b p nn = (b, p, nn)"
  by (subst bufio_Write_loop.simps) auto

lemma bufio_Write_fits:
  assumes "err b = None" and "length p \<le> Available b"
  shows "bufio_Write b p = ((length p, None), b\<lparr>buf := buf b @ p\<rparr>)"
  using assms by (simp add: bufio_Write_def bufio_Write_loop_done)

lemma Writer_Write_ok:
  assumes "Writer_Write w p = ((n, None), w')"
  shows "n = length p" and "written w' = written w @ p" and "length p \<le> room w"
    and "room w' = room w - length p"
  using assms by (auto simp add: Writer_Write_def split: if_splits)

lemma bufio_Flush_ok:
  assumes "err b = None" and "err (snd (bufio_Flush b)) = None"
  shows "buf (snd (bufio_Flush b)) = []"
    and "written (wr (snd (bufio_Flush b))) = written (wr b) @ buf b"
    and "fst (bufio_Flush b) = None"
  using assms
  by (auto simp add: bufio_Flush_def Writer_Write_def Let_def split: if_splits)

lemma bufio_Flush_error:
  assumes "err b = None" and "fst (bufio_Flush b) = None"
  shows "err (snd (bufio_Flush b)) = None"
  using assms
  by (auto simp add: bufio_Flush_def Writer_Write_def Let_def split: if_splits)

lemma bufio_Write_loop_inv:
  "bufio_Write_loop b p nn = (b', p', nn') \<Longrightarrow> err b = None \<Longrightarrow> err b' = None \<Longrightarrow>
     written (wr b') @ buf b' @ p' = written (wr b) @ buf b @ p \<and> nn' + length p' = nn + length p"
proof (induction b p nn rule: bufio_Write_loop.induct)
  case (1 b p nn)
  show ?case
  proof (cases "length p > Available b")
    case False
    then show ?thesis
      using "1.prems" by (simp add: bufio_Write_loop_done)
  next
    case True
    note c = this
    show ?thesis
    proof (cases "Buffered b = 0")
      case True
      define res where "res = Writer_Write (wr b) p"
      define n where "n = fst (fst res)"
      define b1 where "b1 = b\<lparr>err := snd (fst res), wr := snd res\<rparr>"
      have unf: "bufio_Write_loop b p nn = bufio_Write_loop b1 (drop n p) (nn + n)"
        using c True "1.prems"(2)
        by (subst bufio_Write_loop.simps) (simp add: Let_def res_def n_def b1_def)
      have e: "snd (fst res) = None"
      proof (rule ccontr)
        assume "snd (fst res) \<noteq> None"
        then have "err b1 \<noteq> None" by (simp add: b1_def)
        then have "bufio_Write_loop b1 (drop n p) (nn + n) = (b1, drop n p, nn + n)"
          by (simp add: bufio_Write_loop_done)
        then show False
          using unf "1.prems" \<open>err b1 \<noteq> None\<close> by simp
      qed
      then have res: "Writer_Write (wr b) p = ((n, None), snd res)"
        by (simp add: res_def n_def prod_eq_iff)
      have n: "n = length p" and w: "written (snd res) = written (wr b) @ p"
        using Writer_Write_ok [OF res] by simp_all
      have "written (wr b') @ buf b' @ p' = written (wr b1) @ buf b1 @ drop n p
          \<and> nn' + length p' = nn + n + length (drop n p)"
      proof (unfold b1_def, rule "1.IH"(1))
        show "Available b < length p \<and> err b = None" using c "1.prems" by simp
        show "Buffered b = 0" by (rule True)
        show "res = Writer_Write (wr b) p" by (rule res_def)
        show "n = fst (fst res)" by (rule n_def)
        show "bufio_Write_loop (b\<lparr>err := snd (fst res), wr := snd res\<rparr>) (drop n p) (nn + n)
            = (b', p', nn')"
          using unf "1.prems"(1) by (simp add: b1_def)
        show "err (b\<lparr>err := snd (fst res), wr := snd res\<rparr>) = None" using e by simp
        show "err b' = None" by (rule "1.prems"(3))
      qed
      then show ?thesis
        using n w True by (simp add: b1_def Buffered_def)
    next
      case False
      define n where "n = min (Available b) (length p)"
      define b1 where "b1 = b\<lparr>buf := buf b @ take n p\<rparr>"
      define b2 where "b2 = snd (bufio_Flush b1)"
      have unf: "bufio_Write_loop b p nn = bufio_Write_loop b2 (drop n p) (nn + n)"
        using c False "1.prems"(2)
        by (subst bufio_Write_loop.simps) (simp add: Let_def n_def b1_def b2_def)
      have e: "err b2 = None"
      proof (rule ccontr)
        assume a: "err b2 \<noteq> None"
        then have "bufio_Write_loop b2 (drop n p) (nn + n) = (b2, drop n p, nn + n)"
          by (simp add: bufio_Write_loop_done)
        then show False
          using unf "1.prems" a by simp
      qed
      have b1: "err b1 = None" using "1.prems"(2) by (simp add: b1_def)
      have fl: "buf b2 = []" "written (wr b2) = written (wr b1) @ buf b1"
        using bufio_Flush_ok [OF b1] e by (simp_all add: b2_def)
      have "written (wr b') @ buf b' @ p' = written (wr b2) @ buf b2 @ drop n p
          \<and> nn' + length p' = nn + n + length (drop n p)"
      proof (rule "1.IH"(2))
        show "Available b < length p \<and> err b = None" using c "1.prems" by simp
        show "Buffered b \<noteq> 0" by (rule False)
        show "n = min (Available b) (length p)" by (rule n_def)
        show "b2 = snd (bufio_Flush (b\<lparr>buf := buf b @ take n p\<rparr>))"
          by (simp add: b2_def b1_def)
        show "bufio_Write_loop b2 (drop n p) (nn + n) = (b', p', nn')"
          using unf "1.prems"(1) by simp
        show "err b2 = None" by (rule e)
        show "err b' = None" by (rule "1.prems"(3))
      qed
      then show ?thesis
        using fl by (simp add: b1_def n_def)
    qed
  qed
qed

lemma bufio_Write_ok:
  assumes "bufio_Write b p = ((n, None), b')" and "err b = None"
  shows "n = length p" and "err b' = None"
    and "written (wr b') @ buf b' = written (wr b) @ buf b @ p"
proof -
  obtain b1 p1 nn1 where l: "bufio_Write_loop b p 0 = (b1, p1, nn1)"
    by (cases "bufio_Write_loop b p 0") auto
  have e: "err b1 = None" and b': "b' = b1\<lparr>buf := buf b1 @ p1\<rparr>" and n: "n = nn1 + length p1"
    using assms(1) l by (auto simp add: bufio_Write_def split: if_splits)
  from bufio_Write_loop_inv [OF l assms(2) e]
  show "n = length p" and "err b' = None"
    and "written (wr b') @ buf b' = written (wr b) @ buf b @ p"
    using e b' n by simp_all
qed

lemma Header_Write_ok:
  assumes "Header_Write h b = (None, b')" and "err b = None"
  shows "err b' = None"
    and "written (wr b') @ buf b' =
           written (wr b) @ buf b @ [fst (magic h), snd (magic h), Type h] @ PutUint64 (Len h)"
proof -
  obtain n1 b1 where w1: "bufio_Write b [fst (magic h), snd (magic h)] = ((n1, None), b1)"
    using assms(1)
    by (cases "bufio_Write b [fst (magic h), snd (magic h)]")
       (auto simp add: Header_Write_def split: option.splits)
  obtain n2 b2 where w2: "bufio_Write b1 [Type h] = ((n2, None), b2)"
    using assms(1) w1
    by (cases "bufio_Write b1 [Type h]") (auto simp add: Header_Write_def split: option.splits)
  obtain n3 where w3: "bufio_Write b2 (PutUint64 (Len h)) = ((n3, None), b')"
    using assms(1) w1 w2
    by (cases "bufio_Write b2 (PutUint64 (Len h))")
       (auto simp add: Header_Write_def split: option.splits)
  note k1 = bufio_Write_ok [OF w1 assms(2)]
  note k2 = bufio_Write_ok [OF w2 k1(2)]
  note k3 = bufio_Write_ok [OF w3 k2(2)]
  show "err b' = None" by (rule k3(2))
  show "written (wr b') @ buf b' =
           written (wr b) @ buf b @ [fst (magic h), snd (magic h), Type h] @ PutUint64 (Len h)"
    using k1(3) k2(3) k3(3) by simp
qed

lemma WriteMessage_ok:
  assumes "msg_Bytes msg = Inr data" and "WriteMessage cfg w msg = Inr ((cnt, None), w')"
  shows "cnt = of_nat (length data) + HeaderLen cfg"
    and "written w' = written w @ [fst (MagicCode cfg), snd (MagicCode cfg), msg_Type cfg msg]
           @ PutUint64 (of_nat (length data)) @ data"
proof -
  define h where "h = \<lparr>magic = MagicCode cfg, Type = msg_Type cfg msg,
                         Len = of_nat (length data)\<rparr>"
  obtain b1 where hw: "Header_Write h (NewWriter w) = (None, b1)"
    using assms
    by (cases "Header_Write h (NewWriter w)")
       (auto simp add: WriteMessage_def h_def Let_def split: option.splits)
  obtain n b2 where bw: "bufio_Write b1 data = ((n, None), b2)"
    using assms hw
    by (cases "bufio_Write b1 data")
       (auto simp add: WriteMessage_def h_def Let_def split: option.splits prod.splits)
  have fl: "fst (bufio_Flush b2) = None" and w': "w' = wr (snd (bufio_Flush b2))"
    and cnt: "cnt = of_nat n + HeaderLen cfg"
    using assms hw bw
    by (auto simp add: WriteMessage_def h_def Let_def split: prod.splits)
  have e0: "err (NewWriter w) = None" by (simp add: NewWriter_def)
  note k1 = Header_Write_ok [OF hw e0]
  note k2 = bufio_Write_ok [OF bw k1(1)]
  have e3: "err (snd (bufio_Flush b2)) = None"
    using bufio_Flush_error [OF k2(2) fl] .
  note k3 = bufio_Flush_ok [OF k2(2) e3]
  show "cnt = of_nat (length data) + HeaderLen cfg"
    using cnt k2(1) by simp
  show "written w' = written w @ [fst (MagicCode cfg), snd (MagicCode cfg), msg_Type cfg msg]
           @ PutUint64 (of_nat (length data)) @ data"
    using w' k3(2) k2(3) k1(2) by (simp add: NewWriter_def h_def)
qed

lemma Writer_Write_room:
  assumes "length p \<le> room w"
  shows "Writer_Write w p = ((length p, None), w\<lparr>written := written w @ p, room := room w - length p\<rparr>)"
  using assms by (simp add: Writer_Write_def)

lemma bufio_Flush_room:
  assumes "err b = None" and "length (buf b) \<le> room (wr b)"
  shows "fst (bufio_Flush b) = None" and "err (snd (bufio_Flush b)) = None"
    and "buf (snd (bufio_Flush b)) = []"
    and "room (wr (snd (bufio_Flush b))) = room (wr b) - length (buf b)"
    and "written (wr (snd (bufio_Flush b))) = written (wr b) @ buf b"
  using assms by (auto simp add: bufio_Flush_def Writer_Write_room Let_def)

lemma bufio_Write_loop_room:
  "bufio_Write_loop b p nn = (b', p', nn') \<Longrightarrow> err b = None \<Longrightarrow>
   length (buf b) + length p \<le> room (wr b) \<Longrightarrow>
     err b' = None \<and> length (buf b') + length p' \<le> room (wr b')
     \<and> room (wr b') + length (written (wr b')) = room (wr b) + length (written (wr b))"
proof (induction b p nn rule: bufio_Write_loop.induct)
  case (1 b p nn)
  show ?case
  proof (cases "length p > Available b")
    case False
    then show ?thesis
      using "1.prems" by (simp add: bufio_Write_loop_done)
  next
    case True
    note c = this
    show ?thesis
    proof (cases "Buffered b = 0")
      case True
      define res where "res = Writer_Write (wr b) p"
      define n where "n = fst (fst res)"
      have lp: "length p \<le> room (wr b)" using "1.prems"(3) by simp
      have res: "res = ((length p, None),
          (wr b)\<lparr>written := written (wr b) @ p, room := room (wr b) - length p\<rparr>)"
        using Writer_Write_room [OF lp] by (simp add: res_def)
      have unf: "bufio_Write_loop b p nn =
          bufio_Write_loop (b\<lparr>err := snd (fst res), wr := snd res\<rparr>) (drop n p) (nn + n)"
        using c True "1.prems"(2)
        by (subst bufio_Write_loop.simps) (simp add: Let_def res_def n_def)
      have "err b' = None \<and> length (buf b') + length p' \<le> room (wr b')
         \<and> room (wr b') + length (written (wr b'))
             = room (wr (b\<lparr>err := snd (fst res), wr := snd res\<rparr>))
               + length (written (wr (b\<lparr>err := snd (fst res), wr := snd res\<rparr>)))"
      proof (rule "1.IH"(1))
        show "Available b < length p \<and> err b = None" using c "1.prems" by simp
        show "Buffered b = 0" by (rule True)
        show "res = Writer_Write (wr b) p" by (rule res_def)
        show "n = fst (fst res)" by (rule n_def)
        show "bufio_Write_loop (b\<lparr>err := snd (fst res), wr := snd res\<rparr>) (drop n p) (nn + n)
            = (b', p', nn')"
          using unf "1.prems"(1) by simp
        show "err (b\<lparr>err := snd (fst res), wr := snd res\<rparr>) = None" using res by simp
        show "length (buf (b\<lparr>err := snd (fst res), wr := snd res\<rparr>)) + length (drop n p)
            \<le> room (wr (b\<lparr>err := snd (fst res), wr := snd res\<rparr>))"
          using res True "1.prems"(3) by (simp add: n_def Buffered_def)
      qed
      then show ?thesis
        using res lp by simp
    next
      case False
      define n where "n = min (Available b) (length p)"
      define b1 where "b1 = b\<lparr>buf := buf b @ take n p\<rparr>"
      define b2 where "b2 = snd (bufio_Flush b1)"
      have unf: "bufio_Write_loop b p nn = bufio_Write_loop b2 (drop n p) (nn + n)"
        using c False "1.prems"(2)
        by (subst bufio_Write_loop.simps) (simp add: Let_def n_def b1_def b2_def)
      have e1: "err b1 = None" using "1.prems"(2) by (simp add: b1_def)
      have r1: "length (buf b1) \<le> room (wr b1)"
        using "1.prems"(3) by (simp add: b1_def n_def)
      note fl = bufio_Flush_room [OF e1 r1]
      have "err b' = None \<and> length (buf b') + length p' \<le> room (wr b')
         \<and> room (wr b') + length (written (wr b')) = room (wr b2) + length (written (wr b2))"
      proof (rule "1.IH"(2))
        show "Available b < length p \<and> err b = None" using c "1.prems" by simp
        show "Buffered b \<noteq> 0" by (rule False)
        show "n = min (Available b) (length p)" by (rule n_def)
        show "b2 = snd (bufio_Flush (b\<lparr>buf := buf b @ take n p\<rparr>))"
          by (simp add: b2_def b1_def)
        show "bufio_Write_loop b2 (drop n p) (nn + n) = (b', p', nn')"
          using unf "1.prems"(1) by simp
        show "err b2 = None" using fl(2) by (simp add: b2_def)
        show "length (buf b2) + length (drop n p) \<le> room (wr b2)"
          using fl(3,4) "1.prems"(3) by (simp add: b2_def b1_def n_def)
      qed
      then show ?thesis
        using fl(4,5) r1 by (simp add: b2_def b1_def)
    qed
  qed
qed

lemma bufio_Write_room:
  assumes "err b = None" and "length (buf b) + length p \<le> room (wr b)"
  shows "\<exists>b'. bufio_Write b p = ((length p, None), b') \<and> err b' = None
           \<and> room (wr b') + length (buf b) + length p = room (wr b) + length (buf b')
           \<and> length (buf b') \<le> room (wr b')"
proof -
  obtain b1 p1 nn1 where l: "bufio_Write_loop b p 0 = (b1, p1, nn1)"
    by (cases "bufio_Write_loop b p 0") auto
  note k = bufio_Write_loop_room [OF l assms]
  note i = bufio_Write_loop_inv [OF l assms(1)]
  have n: "nn1 + length p1 = length p"
    using i k by simp
  have "length (written (wr b1) @ buf b1 @ p1) = length (written (wr b) @ buf b @ p)"
    using i k by simp
  then have "room (wr b1) + length (buf b) + length p
      = room (wr b) + length (buf b1) + length p1"
    using k by simp
  then show ?thesis
    using l k n by (simp add: bufio_Write_def)
qed

lemma Header_Write_room:
  assumes "err b = None" and "length (buf b) + 11 \<le> room (wr b)"
  shows "\<exists>b'. Header_Write h b = (None, b') \<and> err b' = None
           \<and> room (wr b') + length (buf b) + 11 = room (wr b) + length (buf b')
           \<and> length (buf b') \<le> room (wr b')"
proof -
  obtain b1 where w1: "bufio_Write b [fst (magic h), snd (magic h)] = ((2, None), b1)"
    and e1: "err b1 = None"
    and r1: "room (wr b1) + length (buf b) + 2 = room (wr b) + length (buf b1)"
    using bufio_Write_room [of b "[fst (magic h), snd (magic h)]"] assms by auto
  obtain b2 where w2: "bufio_Write b1 [Type h] = ((1, None), b2)"
    and e2: "err b2 = None"
    and r2: "room (wr b2) + length (buf b1) + 1 = room (wr b1) + length (buf b2)"
    using bufio_Write_room [of b1 "[Type h]"] e1 r1 assms(2) by auto
  obtain b3 where w3: "bufio_Write b2 (PutUint64 (Len h)) = ((8, None), b3)"
    and e3: "err b3 = None"
    and r3: "room (wr b3) + length (buf b2) + 8 = room (wr b2) + length (buf b3)"
    and s3: "length (buf b3) \<le> room (wr b3)"
    using bufio_Write_room [of b2 "PutUint64 (Len h)"] e2 r1 r2 assms(2) by auto
  show ?thesis
    using w1 w2 w3 e3 r1 r2 r3 s3 by (simp add: Header_Write_def)
qed

lemma WriteMessage_room:
  assumes "msg_Bytes msg = Inr data" and "11 + length data \<le> room w"
  shows "\<exists>w'. WriteMessage cfg w msg = Inr ((of_nat (length data) + HeaderLen cfg, None), w')"
proof -
  define h where "h = \<lparr>magic = MagicCode cfg, Type = msg_Type cfg msg,
                         Len = of_nat (length data)\<rparr>"
  obtain b1 where hw: "Header_Write h (NewWriter w) = (None, b1)" and e1: "err b1 = None"
    and r1: "room (wr b1) + 11 = room w + length (buf b1)"
    using Header_Write_room [of "NewWriter w" h] assms(2) by (auto simp add: NewWriter_def)
  obtain b2 where bw: "bufio_Write b1 data = ((length data, None), b2)" and e2: "err b2 = None"
    and s2: "length (buf b2) \<le> room (wr b2)"
    using bufio_Write_room [of b1 data] e1 r1 assms(2) by auto
  obtain e w3 where fl: "bufio_Flush b2 = (e, w3)"
    by (cases "bufio_Flush b2") auto
  then have "e = None"
    using bufio_Flush_room(1) [OF e2 s2] by simp
  then show ?thesis
    using assms(1) hw bw fl
    by (simp add: WriteMessage_def Let_def h_def)
qed

text \<open>
  \<^bold>\<open>Claim C9.\<close> For every message whose \<^verbatim>\<open>Bytes()\<close> returns, \<^verbatim>\<open>WriteMessage\<close>
  succeeds when the writer accepts the eleven header bytes and the body, and a
  successful \<^verbatim>\<open>WriteMessage\<close> has written the magic, the type tag, the length of the
  body as eight big-endian bytes, and the body: the length field of the header is the
  byte length of the body. The count returned is \<^verbatim>\<open>HeaderLen\<close> plus that length,
  which for a header length of 11 is the number of bytes written.
\<close>

theorem WriteMessage_length_and_count:
  assumes "msg_Bytes msg = Inr data"
  shows "(11 + length data \<le> room w \<longrightarrow>
            (\<exists>w'. WriteMessage cfg w msg
                    = Inr ((HeaderLen cfg + of_nat (length data), None), w')))
         \<and> (WriteMessage cfg w msg = Inr ((cnt, None), w') \<longrightarrow>
            written w' = written w @ [fst (MagicCode cfg), snd (MagicCode cfg), msg_Type cfg msg]
              @ PutUint64 (of_nat (length data)) @ data
            \<and> Uint64 (take 8 (drop 3 (drop (length (written w)) (written w'))))
                = of_nat (length data)
            \<and> (length data < 2 ^ 64 \<longrightarrow> unat (of_nat (length data) :: 64 word) = length data)
            \<and> cnt = HeaderLen cfg + of_nat (length data)
            \<and> length (written w') - length (written w) = 11 + length data
            \<and> (HeaderLen cfg = 11 \<and> length data < 2 ^ 63 \<longrightarrow> unat cnt = 11 + length data))"
proof (rule conjI; rule impI)
  assume "11 + length data \<le> room w"
  then show "\<exists>w'. WriteMessage cfg w msg
                    = Inr ((HeaderLen cfg + of_nat (length data), None), w')"
    using WriteMessage_room [OF assms, of w cfg] by (simp add: add.commute)
next
  assume ok: "WriteMessage cfg w msg = Inr ((cnt, None), w')"
  note k = WriteMessage_ok [OF assms ok]
  have a: "length data < 2 ^ 64 \<longrightarrow> unat (of_nat (length data) :: 64 word) = length data"
    by (simp add: unat_of_nat)
  have b: "unat cnt = 11 + length data" if "HeaderLen cfg = 11" and "length data < 2 ^ 63"
  proof -
    have "cnt = of_nat (11 + length data)"
      using k(1) that by simp
    moreover have "11 + length data < 2 ^ 64"
      using that by simp
    ultimately show ?thesis
      by (simp only: unat_of_nat) simp
  qed
  show "written w' = written w @ [fst (MagicCode cfg), snd (MagicCode cfg), msg_Type cfg msg]
              @ PutUint64 (of_nat (length data)) @ data
            \<and> Uint64 (take 8 (drop 3 (drop (length (written w)) (written w'))))
                = of_nat (length data)
            \<and> (length data < 2 ^ 64 \<longrightarrow> unat (of_nat (length data) :: 64 word) = length data)
            \<and> cnt = HeaderLen cfg + of_nat (length data)
            \<and> length (written w') - length (written w) = 11 + length data
            \<and> (HeaderLen cfg = 11 \<and> length data < 2 ^ 63 \<longrightarrow> unat cnt = 11 + length data)"
    using k a b by (simp add: add.commute)
qed

theorem WriteMessage_length_and_count_witness:
  "msg_Bytes (PingMsg \<lparr>TotalDifficulty = 1000, Height = 42\<rparr>) = Inr (drop 11 ping_frame)
   \<and> 11 + length (drop 11 ping_frame) \<le> room \<lparr>written = [], room = 100\<rparr>
   \<and> WriteMessage example_config \<lparr>written = [], room = 100\<rparr>
        (PingMsg \<lparr>TotalDifficulty = 1000, Height = 42\<rparr>)
      = Inr ((27, None), \<lparr>written = ping_frame, room = 73\<rparr>)
   \<and> Uint64 (take 8 (drop 3 ping_frame)) = 16
   \<and> length (drop 11 ping_frame) = 16
   \<and> unat (of_nat (length (drop 11 ping_frame)) :: 64 word) = length (drop 11 ping_frame)
   \<and> unat (27 :: 64 word) = 11 + length (drop 11 ping_frame)"
proof -
  have b: "msg_Bytes (PingMsg \<lparr>TotalDifficulty = 1000, Height = 42\<rparr>) = Inr (drop 11 ping_frame)"
    by (simp add: Ping_Bytes_def PutUint64_def ping_frame_def)
  have w: "WriteMessage example_config \<lparr>written = [], room = 100\<rparr>
        (PingMsg \<lparr>TotalDifficulty = 1000, Height = 42\<rparr>)
      = Inr ((27, None), \<lparr>written = ping_frame, room = 73\<rparr>)"
    by (simp add: WriteMessage_def example_config_def Ping_Bytes_def PutUint64_def NewWriter_def
        Header_Write_def bufio_Write_fits Available_def defaultBufSize_def bufio_Flush_def
        Writer_Write_def ping_frame_def)
  show ?thesis
    using b w WriteMessage_length_and_count [OF b, of "\<lparr>written = [], room = 100\<rparr>"
        example_config 27 "\<lparr>written = ping_frame, room = 73\<rparr>"]
    by (simp add: ping_frame_def)
qed

text \<open>
  \<^bold>\<open>Claim C8.\<close> \<^verbatim>\<open>WriteMessage\<close> of \<^verbatim>\<open>Ping{TotalDifficulty: 1000, Height: 42}\<close>
  to a writer that accepts 27 bytes writes exactly: the two magic bytes, the ping tag,
  the length 16 in eight big-endian bytes, \<^verbatim>\<open>0x00000000000003E8\<close> and
  \<^verbatim>\<open>0x000000000000002A\<close>. When the magic written is the one \<^verbatim>\<open>ValidateMagic\<close>
  accepts, the header length is 11 and 16 is within \<^verbatim>\<open>MaxMsgLen\<close>, \<^verbatim>\<open>ReadMessage\<close>
  of these bytes into an empty Ping yields total difficulty 1000 and height 42.
\<close>

theorem Ping_scenario:
  "(27 \<le> room w \<longrightarrow>
      WriteMessage cfg w (PingMsg \<lparr>TotalDifficulty = 1000, Height = 42\<rparr>) =
        Inr ((16 + HeaderLen cfg, None),
             w\<lparr>written := written w @
                  [fst (MagicCode cfg), snd (MagicCode cfg), msgTypePing cfg,
                   0, 0, 0, 0, 0, 0, 0, 16,
                   0, 0, 0, 0, 0, 0, 3, 0xE8,
                   0, 0, 0, 0, 0, 0, 0, 0x2A],
                room := room w - 27\<rparr>))
   \<and> (MagicCode cfg = (0x1e, 0xc5) \<and> HeaderLen cfg = 11 \<and> 16 \<le> MaxMsgLen cfg \<longrightarrow>
      ReadMessage cfg
        [fst (MagicCode cfg), snd (MagicCode cfg), msgTypePing cfg,
         0, 0, 0, 0, 0, 0, 0, 16,
         0, 0, 0, 0, 0, 0, 3, 0xE8,
         0, 0, 0, 0, 0, 0, 0, 0x2A]
        (PingMsg \<lparr>TotalDifficulty = 0, Height = 0\<rparr>) =
        ((27, None), PingMsg \<lparr>TotalDifficulty = 1000, Height = 42\<rparr>, []))"
proof (rule conjI; rule impI)
  assume "27 \<le> room w"
  then show "WriteMessage cfg w (PingMsg \<lparr>TotalDifficulty = 1000, Height = 42\<rparr>) =
        Inr ((16 + HeaderLen cfg, None),
             w\<lparr>written := written w @
                  [fst (MagicCode cfg), snd (MagicCode cfg), msgTypePing cfg,
                   0, 0, 0, 0, 0, 0, 0, 16,
                   0, 0, 0, 0, 0, 0, 3, 0xE8,
                   0, 0, 0, 0, 0, 0, 0, 0x2A],
                room := room w - 27\<rparr>)"
    by (simp add: WriteMessage_def Ping_Bytes_def PutUint64_def NewWriter_def
        Header_Write_def bufio_Write_fits Available_def defaultBufSize_def bufio_Flush_def
        Writer_Write_def)
next
  assume "MagicCode cfg = (0x1e, 0xc5) \<and> HeaderLen cfg = 11 \<and> 16 \<le> MaxMsgLen cfg"
  then show "ReadMessage cfg
        [fst (MagicCode cfg), snd (MagicCode cfg), msgTypePing cfg,
         0, 0, 0, 0, 0, 0, 0, 16,
         0, 0, 0, 0, 0, 0, 3, 0xE8,
         0, 0, 0, 0, 0, 0, 0, 0x2A]
        (PingMsg \<lparr>TotalDifficulty = 0, Height = 0\<rparr>) =
        ((27, None), PingMsg \<lparr>TotalDifficulty = 1000, Height = 42\<rparr>, [])"
    by (simp add: ReadMessage_def LimitReader_def Header_Read_def ReadFull_def zero_Header_def
        ValidateMagic_def binary_Read_uint8_def binary_Read_uint64_def binary_Read_def
        Ping_Read_def Let_def not_less [symmetric])
qed

theorem Ping_scenario_witness:
  "WriteMessage example_config \<lparr>written = [], room = 27\<rparr>
      (PingMsg \<lparr>TotalDifficulty = 1000, Height = 42\<rparr>)
     = Inr ((27, None), \<lparr>written = ping_frame, room = 0\<rparr>)
   \<and> ReadMessage example_config ping_frame (PingMsg \<lparr>TotalDifficulty = 0, Height = 0\<rparr>)
     = ((27, None), PingMsg \<lparr>TotalDifficulty = 1000, Height = 42\<rparr>, [])"
  using Ping_scenario [of "\<lparr>written = [], room = 27\<rparr>" example_config]
  by (simp add: example_config_def ping_frame_def)

end
